theory Spec2Isabelle
  imports Main
begin

section \<open>The GML backend of Yosys (backends/gml/gml.cc)\<close>

text \<open>
  A shallow embedding of \<^verbatim>\<open>struct GmlWriter\<close>: the bit identifier table, the
  connectivity maps, the node numbering and the edge emission of
  \<^verbatim>\<open>write_module\<close>, and the loop over modules of \<^verbatim>\<open>write_design\<close>.

  The two counters of the writer are C++ \<^verbatim>\<open>int\<close>s. They only ever grow by the
  number of bits, ports and cells of one module, and signed overflow is undefined
  in C++; the model uses mathematical integers, so it describes every module
  whose counters stay below \<open>2^31\<close>.
\<close>

subsection \<open>The circuit description (kernel/rtlil.h, as far as the writer reads it)\<close>

text \<open>
  Modelled from the spec: the declarations of \<^verbatim>\<open>Wire\<close>, \<^verbatim>\<open>Cell\<close>,
  \<^verbatim>\<open>Module\<close>, \<^verbatim>\<open>Design\<close>, \<^verbatim>\<open>SigBit\<close> and \<^verbatim>\<open>SigSpec\<close> (kernel/rtlil.h)
  and of \<^verbatim>\<open>SigMap\<close> (kernel/sigtools.h) are not among the sources. The types below hold
  the members that gml.cc reads, with the meaning that the data model of the spec gives
  them: a module has ports, cells and wires; a port is a wire with a direction; a cell
  has a type and named connections to signals, each on an input or an output pin; a
  signal is a vector of bits; a bit is a constant or one position of a named wire.
\<close>

type_synonym IdString = string

text \<open>
  Modelled from the spec: the enumeration \<^verbatim>\<open>RTLIL::State\<close> is declared in
  kernel/rtlil.h as well. The spec names four constant values (logic-0, logic-1,
  high-impedance, undefined); the writer names \<^verbatim>\<open>S0\<close>,
  \<^verbatim>\<open>S1\<close> and \<^verbatim>\<open>Sz\<close> and treats every other value in its last branch. \<open>Sa\<close> and
  \<open>Sm\<close> stand for the further values of the enumeration that reach this last branch.
\<close>

datatype State = S0 | S1 | Sx | Sz | Sa | Sm

text \<open>
  A \<^verbatim>\<open>SigBit\<close> is a constant (\<^verbatim>\<open>bit.wire == nullptr\<close>) or one bit of a named wire.
\<close>

datatype SigBit = Const State | WireBit IdString nat

type_synonym SigSpec = "SigBit list"

text \<open>
  A wire with the members that the writer reads. The width is a C++ \<^verbatim>\<open>int\<close> that
  RTLIL keeps from being negative; it may be 0.
\<close>

record Wire =
  wire_name :: IdString
  width :: nat
  port_input :: bool
  port_output :: bool

text \<open>The signal of a whole wire, as the conversion \<^verbatim>\<open>SigSpec(Wire*)\<close> builds it.\<close>

definition SigSpec_of_wire :: "Wire \<Rightarrow> SigSpec" where
  "SigSpec_of_wire w = map (WireBit (wire_name w)) [0..<width w]"

text \<open>
  \<^verbatim>\<open>c->input(pin)\<close> and \<^verbatim>\<open>c->output(pin)\<close> are decided by the cell library of the
  kernel; a cell carries them as the two predicates \<open>cell_input\<close> and \<open>cell_output\<close> on its
  pin names.
\<close>

record Cell =
  cell_name :: IdString
  cell_type :: IdString
  connections :: "(IdString \<times> SigSpec) list"
  cell_input :: "IdString \<Rightarrow> bool"
  cell_output :: "IdString \<Rightarrow> bool"

text \<open>
  \<open>ports\<close> lists the wires \<^verbatim>\<open>module->wire(n)\<close> for the names \<^verbatim>\<open>n\<close> of
  \<^verbatim>\<open>module->ports\<close>, in that order; \<open>cells\<close> and \<open>wires\<close> are \<^verbatim>\<open>module->cells()\<close>
  and \<^verbatim>\<open>module->wires()\<close> in iteration order; \<open>selected\<close> is \<^verbatim>\<open>module->selected\<close>
  on the name of a member. \<open>sigmap_of\<close> is the canonicalisation that
  \<^verbatim>\<open>sigmap.set(module)\<close> computes from the connections of the module (class
  \<^verbatim>\<open>SigMap\<close> of kernel/sigtools.h); the writer only ever applies it to bits.
\<close>

record Module =
  mod_name :: IdString
  has_processes :: bool
  ports :: "Wire list"
  cells :: "Cell list"
  wires :: "Wire list"
  selected :: "IdString \<Rightarrow> bool"
  sigmap_of :: "SigBit \<Rightarrow> SigBit"

text \<open>
  The module lists of a design, in the order in which they are iterated once
  \<^verbatim>\<open>design->sort()\<close> has run.
\<close>

record Design =
  modules :: "Module list"
  selected_modules :: "Module list"

subsection \<open>Text fragments\<close>

text \<open>\<^verbatim>\<open>stringf("%d", n)\<close>: the decimal digits of an integer.\<close>

definition digit_char :: "nat \<Rightarrow> char" where
  "digit_char d = char_of (48 + d)"

fun dec_digits :: "nat \<Rightarrow> string" where
  "dec_digits n =
     (if n < 10 then [digit_char n] else dec_digits (n div 10) @ [digit_char (n mod 10)])"

declare dec_digits.simps [simp del]

definition stringf_d :: "int \<Rightarrow> string" where
  "stringf_d i = (if i < 0 then CHR ''-'' # dec_digits (nat (- i)) else dec_digits (nat i))"

text \<open>
  The output stream \<^verbatim>\<open>f\<close> is kept as the list of the records written to it, one
  per \<^verbatim>\<open>f << stringf(...)\<close> statement, with the arguments of the format. The label
  of a node is \<^verbatim>\<open>get_name\<close> of the name held here.
\<close>

datatype gml_line =
    GraphOpen
  | Multigraph
  | NodeOpen int IdString
  | PortType string
  | CellType IdString
  | NodeClose
  | Edge int int
  | GraphClose

subsection \<open>The writer\<close>

text \<open>
  \<open>sigids\<close> is the dictionary from canonical bits to identifier strings. The two
  \<^verbatim>\<open>std::map\<close>s from identifier strings to vectors of node ids are total functions
  with the empty vector where no key is present, which is what \<^verbatim>\<open>operator[]\<close>
  reads and what \<^verbatim>\<open>push_back\<close> extends. The members \<^verbatim>\<open>design\<close>, \<^verbatim>\<open>module\<close>
  and \<^verbatim>\<open>aig_models\<close> are not kept: the module is an argument of the functions
  below and the pool is never touched.
\<close>

record GmlWriter =
  f :: "gml_line list"
  use_selection :: bool
  aig_mode :: bool
  compat_int_mode :: bool
  sigmap :: "SigBit \<Rightarrow> SigBit"
  sigidcounter :: int
  sigids :: "SigBit \<rightharpoonup> string"
  sourceBitToIdxMap :: "string \<Rightarrow> int list"
  targetBitToIdxMap :: "string \<Rightarrow> int list"

text \<open>
  The constructor. \<^verbatim>\<open>sigidcounter\<close> is left uninitialised by the C++ constructor
  and assigned by \<^verbatim>\<open>write_module\<close> before it is read; a default constructed
  \<^verbatim>\<open>SigMap\<close> maps every bit to itself.
\<close>

definition GmlWriter_new :: "gml_line list \<Rightarrow> bool \<Rightarrow> bool \<Rightarrow> bool \<Rightarrow> GmlWriter" where
  "GmlWriter_new out sel aig cim =
     \<lparr> f = out, use_selection = sel, aig_mode = aig, compat_int_mode = cim,
       sigmap = (\<lambda>b. b), sigidcounter = 0, sigids = Map.empty,
       sourceBitToIdxMap = (\<lambda>k. []), targetBitToIdxMap = (\<lambda>k. []) \<rparr>"

text \<open>The token of a constant bit (lines 97-100 and 116-119).\<close>

definition const_token :: "State \<Rightarrow> string" where
  "const_token c =
     (if c = S0 then ''\"0\"''
      else if c = S1 then ''\"1\"''
      else if c = Sz then ''\"z\"''
      else ''\"x\"'')"

text \<open>
  The block \<^verbatim>\<open>if (sigids.count(bit) == 0) { ... }\<close>, which \<^verbatim>\<open>get_bits\<close> and
  \<^verbatim>\<open>updateIndexMap\<close> both contain: a bit met for the first time gets its token, or
  the next value of \<^verbatim>\<open>sigidcounter\<close>.
\<close>

definition assign_sigid :: "GmlWriter \<Rightarrow> SigBit \<Rightarrow> GmlWriter" where
  "assign_sigid w b =
     (case sigids w b of
        Some s \<Rightarrow> w
      | None \<Rightarrow>
          (case b of
             Const c \<Rightarrow> w\<lparr>sigids := (sigids w)(b \<mapsto> const_token c)\<rparr>
           | WireBit n i \<Rightarrow>
               w\<lparr>sigids := (sigids w)(b \<mapsto> stringf_d (sigidcounter w)),
                 sigidcounter := sigidcounter w + 1\<rparr>))"

text \<open>\<^verbatim>\<open>sigids[bit]\<close>; a missing key reads as the empty string.\<close>

definition sigids_at :: "GmlWriter \<Rightarrow> SigBit \<Rightarrow> string" where
  "sigids_at w b = (case sigids w b of Some s \<Rightarrow> s | None \<Rightarrow> [])"

text \<open>\<^verbatim>\<open>get_bits\<close>: the loop over the bits of \<^verbatim>\<open>sigmap(sig)\<close>, then the function.\<close>

fun get_bits_loop :: "SigBit list \<Rightarrow> GmlWriter \<Rightarrow> bool \<Rightarrow> string \<Rightarrow> GmlWriter \<times> string" where
  "get_bits_loop [] w first str = (w, str)"
| "get_bits_loop (b # bits) w first str =
     (let str1 = str @ (if first then '' '' else '', '');
          w1 = assign_sigid w b
      in get_bits_loop bits w1 False (str1 @ sigids_at w1 b))"

definition get_bits :: "GmlWriter \<Rightarrow> SigSpec \<Rightarrow> GmlWriter \<times> string" where
  "get_bits w sig =
     (let (w1, str) = get_bits_loop (map (sigmap w) sig) w True ''[''
      in (w1, str @ '' ]''))"

text \<open>
  \<^verbatim>\<open>updateIndexMap\<close>: every bit of \<^verbatim>\<open>sigmap(sig)\<close> gets its identifier, and the
  node id \<open>idx\<close> is appended to the source or to the target vector of that
  identifier. The result is the number of bits.
\<close>

fun updateIndexMap_loop ::
  "SigBit list \<Rightarrow> int \<Rightarrow> bool \<Rightarrow> GmlWriter \<Rightarrow> int \<Rightarrow> GmlWriter \<times> int" where
  "updateIndexMap_loop [] idx updateSource w iter = (w, iter)"
| "updateIndexMap_loop (b # bits) idx updateSource w iter =
     (let w1 = assign_sigid w b;
          k = sigids_at w1 b;
          w2 = (if updateSource
                then w1\<lparr>sourceBitToIdxMap := (sourceBitToIdxMap w1)(k := sourceBitToIdxMap w1 k @ [idx])\<rparr>
                else w1\<lparr>targetBitToIdxMap := (targetBitToIdxMap w1)(k := targetBitToIdxMap w1 k @ [idx])\<rparr>)
      in updateIndexMap_loop bits idx updateSource w2 (iter + 1))"

definition updateIndexMap :: "GmlWriter \<Rightarrow> SigSpec \<Rightarrow> int \<Rightarrow> bool \<Rightarrow> GmlWriter \<times> int" where
  "updateIndexMap w sig idx updateSource =
     updateIndexMap_loop (map (sigmap w) sig) idx updateSource w 0"

text \<open>
  \<^verbatim>\<open>get_bits_vector\<close>: \<^verbatim>\<open>get_bits\<close> is called for the size of its string, which
  assigns the identifiers; the vector then reads them.
\<close>

definition get_bits_vector :: "GmlWriter \<Rightarrow> SigSpec \<Rightarrow> GmlWriter \<times> string list" where
  "get_bits_vector w sig =
     (let (w1, str) = get_bits w sig
      in (w1, map (\<lambda>b. sigids_at w1 b) (map (sigmap w1) sig)))"

subsection \<open>\<^verbatim>\<open>write_module\<close>\<close>

datatype error = Module_contains_processes IdString

text \<open>
  A fatal error ends the run; the stream keeps what was written before, so an
  error comes with the stream as it stands.
\<close>

type_synonym 'a result = "(error \<times> gml_line list) + 'a"

text \<open>The loop over the ports (lines 160-169); the state is the writer and \<^verbatim>\<open>idCounter\<close>.\<close>

definition port_type :: "Wire \<Rightarrow> string" where
  "port_type p = (if port_input p then (if port_output p then ''inout'' else ''input'') else ''output'')"

definition write_port :: "Module \<Rightarrow> GmlWriter \<times> int \<Rightarrow> Wire \<Rightarrow> GmlWriter \<times> int" where
  "write_port m st p =
     (let (w, idCounter) = st in
      if use_selection w \<and> \<not> selected m (wire_name p) then (w, idCounter)
      else
        (let w1 = w\<lparr>f := f w @ [NodeOpen idCounter (wire_name p), PortType (port_type p), NodeClose]\<rparr>;
             (w2, n) = updateIndexMap w1 (SigSpec_of_wire p) idCounter (port_input p)
         in (w2, idCounter + n)))"

fun write_ports :: "Module \<Rightarrow> Wire list \<Rightarrow> GmlWriter \<times> int \<Rightarrow> GmlWriter \<times> int" where
  "write_ports m [] st = st"
| "write_ports m (p # ps) st = write_ports m ps (write_port m st p)"

text \<open>The loop over the connections of one cell (lines 181-188).\<close>

definition write_conn :: "Cell \<Rightarrow> int \<Rightarrow> GmlWriter \<Rightarrow> IdString \<times> SigSpec \<Rightarrow> GmlWriter" where
  "write_conn c idCounter w conn =
     (let w1 = (if cell_input c (fst conn) then fst (updateIndexMap w (snd conn) idCounter False) else w)
      in if cell_output c (fst conn) then fst (updateIndexMap w1 (snd conn) idCounter True) else w1)"

fun write_conns :: "Cell \<Rightarrow> int \<Rightarrow> (IdString \<times> SigSpec) list \<Rightarrow> GmlWriter \<Rightarrow> GmlWriter" where
  "write_conns c idCounter [] w = w"
| "write_conns c idCounter (conn # conns) w = write_conns c idCounter conns (write_conn c idCounter w conn)"

text \<open>The loop over the cells (lines 172-190).\<close>

definition write_cell :: "Module \<Rightarrow> GmlWriter \<times> int \<Rightarrow> Cell \<Rightarrow> GmlWriter \<times> int" where
  "write_cell m st c =
     (let (w, idCounter) = st in
      if use_selection w \<and> \<not> selected m (cell_name c) then (w, idCounter)
      else
        (let w1 = w\<lparr>f := f w @ [NodeOpen idCounter (cell_name c), CellType (cell_type c), NodeClose]\<rparr>;
             w2 = write_conns c idCounter (connections c) w1
         in (w2, idCounter + 1)))"

fun write_cells :: "Module \<Rightarrow> Cell list \<Rightarrow> GmlWriter \<times> int \<Rightarrow> GmlWriter \<times> int" where
  "write_cells m [] st = st"
| "write_cells m (c # cs) st = write_cells m cs (write_cell m st c)"

text \<open>
  The three nested loops of the edge emission (lines 221-234). The state is the
  stream with \<^verbatim>\<open>prevSource\<close> and \<^verbatim>\<open>prevTarget\<close>.
\<close>

type_synonym edge_state = "gml_line list \<times> int \<times> int"

fun targets_loop :: "int \<Rightarrow> int list \<Rightarrow> edge_state \<Rightarrow> edge_state" where
  "targets_loop s [] st = st"
| "targets_loop s (t # ts) (out, prevSource, prevTarget) =
     targets_loop s ts
       (if prevSource = s \<and> prevTarget = t then (out, prevSource, prevTarget)
        else (out @ [Edge s t], s, t))"

fun sources_loop :: "int list \<Rightarrow> int list \<Rightarrow> edge_state \<Rightarrow> edge_state" where
  "sources_loop [] targets st = st"
| "sources_loop (s # ss) targets st = sources_loop ss targets (targets_loop s targets st)"

fun bits_loop ::
  "(string \<Rightarrow> int list) \<Rightarrow> (string \<Rightarrow> int list) \<Rightarrow> string list \<Rightarrow> edge_state \<Rightarrow> edge_state" where
  "bits_loop src tgt [] st = st"
| "bits_loop src tgt (b # bits) st = bits_loop src tgt bits (sources_loop (src b) (tgt b) st)"

text \<open>One round of the loop over the wires (lines 214-235).\<close>

definition write_wire :: "Module \<Rightarrow> GmlWriter \<Rightarrow> Wire \<Rightarrow> GmlWriter" where
  "write_wire m w wr =
     (if use_selection w \<and> \<not> selected m (wire_name wr) then w
      else
        (let (w1, bits) = get_bits_vector w (SigSpec_of_wire wr);
             (out, prevSource, prevTarget) =
                bits_loop (sourceBitToIdxMap w1) (targetBitToIdxMap w1) bits (f w1, 0, 0)
         in w1\<lparr>f := out\<rparr>))"

fun write_wires :: "Module \<Rightarrow> Wire list \<Rightarrow> GmlWriter \<Rightarrow> GmlWriter" where
  "write_wires m [] w = w"
| "write_wires m (wr # wrs) w = write_wires m wrs (write_wire m w wr)"

text \<open>
  \<^verbatim>\<open>write_module\<close>. The assertion \<^verbatim>\<open>module->design == design\<close> holds for every
  module that \<^verbatim>\<open>write_design\<close> takes from its design. \<open>sigids\<close> is cleared and
  \<open>sigidcounter\<close> is set to 2; the two connectivity maps are left as they are.
\<close>

definition write_module :: "GmlWriter \<Rightarrow> Module \<Rightarrow> GmlWriter result" where
  "write_module w0 m =
     (let w = w0\<lparr>sigmap := sigmap_of m, sigids := Map.empty, sigidcounter := 2\<rparr> in
      if has_processes m then Inl (Module_contains_processes (mod_name m), f w)
      else
        (let (w1, idCounter1) = write_ports m (ports m) (w, 2);
             (w2, idCounter2) = write_cells m (cells m) (w1, idCounter1)
         in Inr (write_wires m (wires m) w2)))"

subsection \<open>\<^verbatim>\<open>write_design\<close>\<close>

fun write_modules :: "GmlWriter \<Rightarrow> Module list \<Rightarrow> GmlWriter result" where
  "write_modules w [] = Inr w"
| "write_modules w (m # ms) =
     (case write_module w m of Inl e \<Rightarrow> Inl e | Inr w1 \<Rightarrow> write_modules w1 ms)"

definition write_design :: "GmlWriter \<Rightarrow> Design \<Rightarrow> GmlWriter result" where
  "write_design w0 d =
     (let w = w0\<lparr>f := f w0 @ [GraphOpen, Multigraph]\<rparr>;
          mods = (if use_selection w then selected_modules d else modules d)
      in case write_modules w mods of
           Inl e \<Rightarrow> Inl e
         | Inr w1 \<Rightarrow> Inr (w1\<lparr>f := f w1 @ [GraphClose]\<rparr>))"

subsection \<open>The phases of \<^verbatim>\<open>write_module\<close>\<close>

text \<open>
  The writer as \<^verbatim>\<open>write_module\<close> has it after its first lines, after the loop
  over the ports and after the loop over the cells (each with \<^verbatim>\<open>idCounter\<close>).
\<close>

definition module_start :: "GmlWriter \<Rightarrow> Module \<Rightarrow> GmlWriter" where
  "module_start w0 m = w0\<lparr>sigmap := sigmap_of m, sigids := Map.empty, sigidcounter := 2\<rparr>"

definition after_ports :: "GmlWriter \<Rightarrow> Module \<Rightarrow> GmlWriter \<times> int" where
  "after_ports w0 m = write_ports m (ports m) (module_start w0 m, 2)"

definition after_cells :: "GmlWriter \<Rightarrow> Module \<Rightarrow> GmlWriter \<times> int" where
  "after_cells w0 m = write_cells m (cells m) (after_ports w0 m)"

text \<open>The writer at the end of \<^verbatim>\<open>write_module\<close> on a module without processes.\<close>

definition after_wires :: "GmlWriter \<Rightarrow> Module \<Rightarrow> GmlWriter" where
  "after_wires w0 m = write_wires m (wires m) (fst (after_cells w0 m))"

text \<open>The records that \<^verbatim>\<open>write_module\<close> adds to the stream, also when it fails.\<close>

definition module_lines :: "GmlWriter \<Rightarrow> Module \<Rightarrow> gml_line list" where
  "module_lines w m =
     (case write_module w m of
        Inl e \<Rightarrow> drop (length (f w)) (snd e)
      | Inr w1 \<Rightarrow> drop (length (f w)) (f w1))"

text \<open>The stream at the end of \<^verbatim>\<open>write_design\<close>, or at its fatal error.\<close>

definition stream_of :: "GmlWriter result \<Rightarrow> gml_line list" where
  "stream_of r = (case r of Inl e \<Rightarrow> snd e | Inr w \<Rightarrow> f w)"

text \<open>The node records and the edge records of a piece of output.\<close>

fun node_recs :: "gml_line list \<Rightarrow> (int \<times> IdString) list" where
  "node_recs [] = []"
| "node_recs (NodeOpen k n # ls) = (k, n) # node_recs ls"
| "node_recs (l # ls) = node_recs ls"

fun edges_of :: "gml_line list \<Rightarrow> (int \<times> int) list" where
  "edges_of [] = []"
| "edges_of (Edge s t # ls) = (s, t) # edges_of ls"
| "edges_of (l # ls) = edges_of ls"

text \<open>
  The test \<^verbatim>\<open>if (use_selection && !module->selected(x)) continue;\<close>, negated: the
  member named \<open>n\<close> is processed.
\<close>

definition included :: "GmlWriter \<Rightarrow> Module \<Rightarrow> IdString \<Rightarrow> bool" where
  "included w m n = (\<not> (use_selection w \<and> \<not> selected m n))"

text \<open>
  The identifiers that a writer holds for the bits of a wire, in the order of the bits.
\<close>

definition wire_bit_ids :: "GmlWriter \<Rightarrow> Wire \<Rightarrow> string list" where
  "wire_bit_ids w wr = map (\<lambda>b. sigids_at w (sigmap w b)) (SigSpec_of_wire wr)"

subsection \<open>Node numbering in closed form\<close>

text \<open>The number of bits of a list of ports.\<close>

definition total_width :: "Wire list \<Rightarrow> int" where
  "total_width ps = (\<Sum>q\<leftarrow>ps. int (width q))"

text \<open>
  Node ids and names for a list of ports when the counter starts at \<open>k\<close>: the id of a
  port is \<open>k\<close> plus the number of bits of the ports before it.
\<close>

definition port_nodes :: "int \<Rightarrow> Wire list \<Rightarrow> (int \<times> IdString) list" where
  "port_nodes k ps =
     map (\<lambda>i. (k + (\<Sum>q\<leftarrow>take i ps. int (width q)), wire_name (ps ! i))) [0..<length ps]"

text \<open>Node ids and names for a list of cells when the counter starts at \<open>k\<close>.\<close>

definition cell_nodes :: "int \<Rightarrow> Cell list \<Rightarrow> (int \<times> IdString) list" where
  "cell_nodes k cs = map (\<lambda>j. (k + int j, cell_name (cs ! j))) [0..<length cs]"

text \<open>Node ids that count up one by one from \<open>k\<close>.\<close>

definition sequential_from :: "int \<Rightarrow> int list \<Rightarrow> bool" where
  "sequential_from k ids = (ids = map (\<lambda>i. k + int i) [0..<length ids])"

subsection \<open>Edge emission, flattened\<close>

text \<open>
  The candidate pairs of a wire: bit by bit, every source of the bit with every target
  of the bit, sources outermost. \<open>pairs_loop\<close> is the body of the innermost loop run
  over a list of candidates; \<open>run_edges slot ps\<close> are the edges it writes on the
  candidates \<open>ps\<close> when \<^verbatim>\<open>(prevSource, prevTarget)\<close> starts as \<open>slot\<close>, and
  \<open>wire_edges\<close> are the edges that the three loops of the source write for one wire.
\<close>

definition candidates ::
  "(string \<Rightarrow> int list) \<Rightarrow> (string \<Rightarrow> int list) \<Rightarrow> string list \<Rightarrow> (int \<times> int) list" where
  "candidates src tgt bits = concat (map (\<lambda>b. List.product (src b) (tgt b)) bits)"

fun pairs_loop :: "(int \<times> int) list \<Rightarrow> edge_state \<Rightarrow> edge_state" where
  "pairs_loop [] st = st"
| "pairs_loop ((s, t) # ps) (out, prevSource, prevTarget) =
     pairs_loop ps
       (if prevSource = s \<and> prevTarget = t then (out, prevSource, prevTarget)
        else (out @ [Edge s t], s, t))"

definition run_edges :: "int \<times> int \<Rightarrow> (int \<times> int) list \<Rightarrow> (int \<times> int) list" where
  "run_edges slot ps = edges_of (fst (pairs_loop ps ([], fst slot, snd slot)))"

definition wire_edges ::
  "(string \<Rightarrow> int list) \<Rightarrow> (string \<Rightarrow> int list) \<Rightarrow> string list \<Rightarrow> (int \<times> int) list" where
  "wire_edges src tgt bits = edges_of (fst (bits_loop src tgt bits ([], 0, 0)))"

subsection \<open>Invariants and auxiliary notions\<close>

text \<open>Reading a decimal string back.\<close>

definition undec :: "string \<Rightarrow> nat" where
  "undec s = foldl (\<lambda>a c. 10 * a + (of_char c - 48)) 0 s"

text \<open>
  A property of the writer is \<open>stable\<close> when assigning an identifier, writing to the
  stream and extending a connectivity map keep it.
\<close>

definition stable :: "(GmlWriter \<Rightarrow> bool) \<Rightarrow> bool" where
  "stable P \<longleftrightarrow>
     (\<forall>w b. P w \<longrightarrow> P (assign_sigid w b)) \<and>
     (\<forall>w x. P w \<longrightarrow> P (w\<lparr>f := x\<rparr>)) \<and>
     (\<forall>w g. P w \<longrightarrow> P (w\<lparr>sourceBitToIdxMap := g\<rparr>)) \<and>
     (\<forall>w g. P w \<longrightarrow> P (w\<lparr>targetBitToIdxMap := g\<rparr>))"

text \<open>
  What holds of the identifier table all through one module: the counter is at least 2,
  a constant bit has its token, a wire bit has the decimal string of a number from 2 up
  to the counter, and no decimal string is the identifier of two bits.
\<close>

definition sigids_ok :: "GmlWriter \<Rightarrow> bool" where
  "sigids_ok w \<longleftrightarrow>
     2 \<le> sigidcounter w \<and>
     (\<forall>c s. sigids w (Const c) = Some s \<longrightarrow> s = const_token c) \<and>
     (\<forall>n i s. sigids w (WireBit n i) = Some s \<longrightarrow>
        (\<exists>k. 2 \<le> k \<and> k < sigidcounter w \<and> s = stringf_d k)) \<and>
     (\<forall>b1 b2 k. sigids w b1 = Some (stringf_d k) \<and> sigids w b2 = Some (stringf_d k) \<longrightarrow> b1 = b2)"

text \<open>Every node id held in the two connectivity maps is at least 2.\<close>

definition map_ids_ge2 :: "GmlWriter \<Rightarrow> bool" where
  "map_ids_ge2 w \<longleftrightarrow>
     (\<forall>k. (\<forall>i\<in>set (sourceBitToIdxMap w k). 2 \<le> i) \<and> (\<forall>i\<in>set (targetBitToIdxMap w k). 2 \<le> i))"

text \<open>The writer with other values of the two flags.\<close>

definition set_flags :: "bool \<Rightarrow> bool \<Rightarrow> GmlWriter \<Rightarrow> GmlWriter" where
  "set_flags a c w = w\<lparr>aig_mode := a, compat_int_mode := c\<rparr>"

subsection \<open>Example designs\<close>

text \<open>
  A writer as \<^verbatim>\<open>GmlBackend::execute\<close> constructs it, without selection and with both
  flags off, on an empty stream.
\<close>

definition writer0 :: GmlWriter where
  "writer0 = GmlWriter_new [] False False False"

text \<open>
  Module \<open>A\<close>: a one-bit input port \<open>a\<close> read by pin \<open>A\<close> of a cell \<open>c\<close>.
  Module \<open>B\<close>: a one-bit input port \<open>b\<close> and nothing else.
\<close>

definition wire_a :: Wire where
  "wire_a = \<lparr>wire_name = ''a'', width = 1, port_input = True, port_output = False\<rparr>"

definition wire_b :: Wire where
  "wire_b = \<lparr>wire_name = ''b'', width = 1, port_input = True, port_output = False\<rparr>"

definition cell_c :: Cell where
  "cell_c = \<lparr>cell_name = ''c'', cell_type = ''$not'', connections = [(''A'', [WireBit ''a'' 0])],
     cell_input = (\<lambda>p. p = ''A''), cell_output = (\<lambda>p. p = ''Y'')\<rparr>"

definition mod_A :: Module where
  "mod_A = \<lparr>mod_name = ''A'', has_processes = False, ports = [wire_a], cells = [cell_c],
     wires = [wire_a], selected = (\<lambda>n. True), sigmap_of = (\<lambda>b. b)\<rparr>"

definition mod_B :: Module where
  "mod_B = \<lparr>mod_name = ''B'', has_processes = False, ports = [wire_b], cells = [],
     wires = [wire_b], selected = (\<lambda>n. True), sigmap_of = (\<lambda>b. b)\<rparr>"

text \<open>The design with the modules \<open>A\<close> and \<open>B\<close>.\<close>

definition design_AB :: Design where
  "design_AB = \<lparr>modules = [mod_A, mod_B], selected_modules = [mod_A, mod_B]\<rparr>"

text \<open>Module \<open>P\<close>: module \<open>B\<close> with a process left in it.\<close>

definition mod_P :: Module where
  "mod_P = mod_B\<lparr>mod_name := ''P'', has_processes := True\<rparr>"

text \<open>
  Module \<open>and2\<close>: one-bit inputs \<open>x\<close> and \<open>y\<close>, a two-bit output \<open>out\<close>, a cell
  \<open>g\<close> with \<open>out[0] = g(x, y)\<close>, and \<open>out[1]\<close> connected to the constant 0.
\<close>

definition wire_x :: Wire where
  "wire_x = \<lparr>wire_name = ''x'', width = 1, port_input = True, port_output = False\<rparr>"

definition wire_y :: Wire where
  "wire_y = \<lparr>wire_name = ''y'', width = 1, port_input = True, port_output = False\<rparr>"

definition wire_out :: Wire where
  "wire_out = \<lparr>wire_name = ''out'', width = 2, port_input = False, port_output = True\<rparr>"

definition cell_g :: Cell where
  "cell_g = \<lparr>cell_name = ''g'', cell_type = ''$and'',
     connections = [(''A'', [WireBit ''x'' 0]), (''B'', [WireBit ''y'' 0]), (''Y'', [WireBit ''out'' 0])],
     cell_input = (\<lambda>p. p = ''A'' \<or> p = ''B''), cell_output = (\<lambda>p. p = ''Y'')\<rparr>"

definition mod_and2 :: Module where
  "mod_and2 = \<lparr>mod_name = ''and2'', has_processes = False, ports = [wire_x, wire_y, wire_out],
     cells = [cell_g], wires = [wire_x, wire_y, wire_out], selected = (\<lambda>n. True),
     sigmap_of = (\<lambda>b. if b = WireBit ''out'' 1 then Const S0 else b)\<rparr>"

text \<open>Module \<open>wide\<close>: a two-bit input port \<open>d\<close> followed by the one-bit input port \<open>b\<close>.\<close>

definition wire_d :: Wire where
  "wire_d = \<lparr>wire_name = ''d'', width = 2, port_input = True, port_output = False\<rparr>"

definition mod_wide :: Module where
  "mod_wide = \<lparr>mod_name = ''wide'', has_processes = False, ports = [wire_d, wire_b], cells = [],
     wires = [wire_d, wire_b], selected = (\<lambda>n. True), sigmap_of = (\<lambda>b. b)\<rparr>"

text \<open>
  Module \<open>alias\<close>: module \<open>A\<close> with a second wire \<open>e\<close> that is connected to \<open>a\<close>, so
  that both wires have the same canonical bit.
\<close>

definition wire_e :: Wire where
  "wire_e = \<lparr>wire_name = ''e'', width = 1, port_input = False, port_output = False\<rparr>"

definition mod_alias :: Module where
  "mod_alias = \<lparr>mod_name = ''alias'', has_processes = False, ports = [wire_a], cells = [cell_c],
     wires = [wire_a, wire_e], selected = (\<lambda>n. True),
     sigmap_of = (\<lambda>b. if b = WireBit ''e'' 0 then WireBit ''a'' 0 else b)\<rparr>"

text \<open>
  Module \<open>fan\<close>: the cells \<open>c1\<close> and \<open>c2\<close> both drive the one-bit wire \<open>n\<close>, and
  the cell \<open>c3\<close> reads it on its two input pins.
\<close>

definition wire_n :: Wire where
  "wire_n = \<lparr>wire_name = ''n'', width = 1, port_input = False, port_output = False\<rparr>"

definition cell_c1 :: Cell where
  "cell_c1 = \<lparr>cell_name = ''c1'', cell_type = ''$buf'', connections = [(''Y'', [WireBit ''n'' 0])],
     cell_input = (\<lambda>p. p = ''A'' \<or> p = ''B''), cell_output = (\<lambda>p. p = ''Y'')\<rparr>"

definition cell_c2 :: Cell where
  "cell_c2 = cell_c1\<lparr>cell_name := ''c2''\<rparr>"

definition cell_c3 :: Cell where
  "cell_c3 = \<lparr>cell_name = ''c3'', cell_type = ''$and'',
     connections = [(''A'', [WireBit ''n'' 0]), (''B'', [WireBit ''n'' 0])],
     cell_input = (\<lambda>p. p = ''A'' \<or> p = ''B''), cell_output = (\<lambda>p. p = ''Y'')\<rparr>"

definition mod_fan :: Module where
  "mod_fan = \<lparr>mod_name = ''fan'', has_processes = False, ports = [],
     cells = [cell_c1, cell_c2, cell_c3], wires = [wire_n], selected = (\<lambda>n. True),
     sigmap_of = (\<lambda>b. b)\<rparr>"

text \<open>Module \<open>zero\<close>: an input port \<open>z\<close> of width 0, then the cell \<open>c\<close> of module \<open>A\<close>.\<close>

definition wire_z :: Wire where
  "wire_z = \<lparr>wire_name = ''z'', width = 0, port_input = True, port_output = False\<rparr>"

definition mod_zero :: Module where
  "mod_zero = \<lparr>mod_name = ''zero'', has_processes = False, ports = [wire_z], cells = [cell_c],
     wires = [wire_z, wire_a], selected = (\<lambda>n. True), sigmap_of = (\<lambda>b. b)\<rparr>"

text \<open>
  Module \<open>tie\<close>: module \<open>A\<close> with a cell \<open>t\<close> whose pin \<open>B\<close> is tied to the constant 1,
  and a wire \<open>h\<close> that is no port and is connected to the high-impedance constant.
\<close>

definition wire_h :: Wire where
  "wire_h = \<lparr>wire_name = ''h'', width = 1, port_input = False, port_output = False\<rparr>"

definition cell_t :: Cell where
  "cell_t = \<lparr>cell_name = ''t'', cell_type = ''$and'',
     connections = [(''A'', [WireBit ''a'' 0]), (''B'', [Const S1])],
     cell_input = (\<lambda>p. p = ''A'' \<or> p = ''B''), cell_output = (\<lambda>p. p = ''Y'')\<rparr>"

definition mod_tie :: Module where
  "mod_tie = \<lparr>mod_name = ''tie'', has_processes = False, ports = [wire_a], cells = [cell_t],
     wires = [wire_a, wire_h], selected = (\<lambda>n. True),
     sigmap_of = (\<lambda>b. if b = WireBit ''h'' 0 then Const Sz else b)\<rparr>"

section \<open>Decimal strings\<close>

lemma digit_char_val: "d < 10 \<Longrightarrow> of_char (digit_char d) = 48 + d"
  by (simp add: digit_char_def)

lemma undec_snoc: "undec (s @ [c]) = 10 * undec s + (of_char c - 48)"
  by (simp add: undec_def)

lemma undec_dec_digits: "undec (dec_digits n) = n"
proof (induction n rule: dec_digits.induct)
  case (1 n)
  show ?case
  proof (cases "n < 10")
    case True
    then show ?thesis
      by (subst dec_digits.simps) (simp add: undec_def digit_char_val)
  next
    case False
    have "undec (dec_digits n) = 10 * undec (dec_digits (n div 10)) + (of_char (digit_char (n mod 10)) - 48)"
      using False by (subst dec_digits.simps) (simp add: undec_snoc)
    also have "\<dots> = 10 * (n div 10) + n mod 10"
      using 1 False by (simp add: digit_char_val)
    finally show ?thesis by simp
  qed
qed

lemma dec_digits_inj: "dec_digits m = dec_digits n \<Longrightarrow> m = n"
  by (metis undec_dec_digits)

lemma dec_digits_set: "c \<in> set (dec_digits n) \<Longrightarrow> \<exists>d<10. c = digit_char d"
proof (induction n rule: dec_digits.induct)
  case (1 n)
  show ?case
  proof (cases "n < 10")
    case True
    with 1(2) show ?thesis by (subst (asm) dec_digits.simps) auto
  next
    case False
    with 1(2) have "c \<in> set (dec_digits (n div 10)) \<or> c = digit_char (n mod 10)"
      by (subst (asm) dec_digits.simps) auto
    then show ?thesis
    proof
      assume "c \<in> set (dec_digits (n div 10))"
      with 1(1) False show ?thesis by simp
    next
      assume "c = digit_char (n mod 10)"
      moreover have "n mod 10 < 10" by simp
      ultimately show ?thesis by blast
    qed
  qed
qed

lemma dec_digits_not_Nil: "dec_digits n \<noteq> []"
  by (subst dec_digits.simps) simp

lemma digit_char_not_minus: "d < 10 \<Longrightarrow> digit_char d \<noteq> CHR ''-''"
proof
  assume "d < 10" and "digit_char d = CHR ''-''"
  then have "(48 + d :: nat) = of_char (CHR ''-'')" by (metis digit_char_val)
  then show False by simp
qed

lemma digit_char_not_quote: "d < 10 \<Longrightarrow> digit_char d \<noteq> CHR 0x22"
proof
  assume "d < 10" and "digit_char d = CHR 0x22"
  then have "(48 + d :: nat) = of_char (CHR 0x22)" by (metis digit_char_val)
  then show False by simp
qed

lemma stringf_d_inj: "stringf_d i = stringf_d j \<Longrightarrow> i = j"
proof -
  assume eq: "stringf_d i = stringf_d j"
  have hd_digit: "\<And>n. hd (dec_digits n) \<noteq> CHR ''-''"
  proof -
    fix n
    have "hd (dec_digits n) \<in> set (dec_digits n)" using dec_digits_not_Nil by simp
    then obtain d where "d < 10" "hd (dec_digits n) = digit_char d" using dec_digits_set by blast
    then show "hd (dec_digits n) \<noteq> CHR ''-''" using digit_char_not_minus by simp
  qed
  show ?thesis
  proof (cases "i < 0"; cases "j < 0")
    assume "i < 0" "j < 0"
    with eq have "dec_digits (nat (- i)) = dec_digits (nat (- j))" by (simp add: stringf_d_def)
    then have "nat (- i) = nat (- j)" by (rule dec_digits_inj)
    with \<open>i < 0\<close> \<open>j < 0\<close> show ?thesis by simp
  next
    assume "i < 0" "\<not> j < 0"
    with eq have "CHR ''-'' # dec_digits (nat (- i)) = dec_digits (nat j)" by (simp add: stringf_d_def)
    then have "hd (dec_digits (nat j)) = CHR ''-''" by (metis list.sel(1))
    with hd_digit show ?thesis by blast
  next
    assume "\<not> i < 0" "j < 0"
    with eq have "CHR ''-'' # dec_digits (nat (- j)) = dec_digits (nat i)" by (simp add: stringf_d_def)
    then have "hd (dec_digits (nat i)) = CHR ''-''" by (metis list.sel(1))
    with hd_digit show ?thesis by blast
  next
    assume "\<not> i < 0" "\<not> j < 0"
    with eq have "dec_digits (nat i) = dec_digits (nat j)" by (simp add: stringf_d_def)
    then have "nat i = nat j" by (rule dec_digits_inj)
    with \<open>\<not> i < 0\<close> \<open>\<not> j < 0\<close> show ?thesis by simp
  qed
qed

lemma dec_digits_no_quote: "CHR 0x22 \<notin> set (dec_digits n)"
proof
  assume "CHR 0x22 \<in> set (dec_digits n)"
  then obtain d where "d < 10" and "CHR 0x22 = digit_char d"
    using dec_digits_set by blast
  then show False using digit_char_not_quote by metis
qed

lemma stringf_d_no_quote: "CHR 0x22 \<notin> set (stringf_d i)"
  by (simp add: stringf_d_def dec_digits_no_quote)

lemma const_token_quote: "CHR 0x22 \<in> set (const_token c)"
  by (simp add: const_token_def)

lemma const_token_not_stringf_d: "const_token c \<noteq> stringf_d i"
  using stringf_d_no_quote const_token_quote by metis

lemma stringf_d_0: "stringf_d 0 = ''0''" by code_simp

lemma stringf_d_1: "stringf_d 1 = ''1''" by code_simp

section \<open>Properties kept by every step of the writer\<close>

lemma stable_assign: "stable P \<Longrightarrow> P w \<Longrightarrow> P (assign_sigid w b)"
  by (simp add: stable_def)

lemma stable_f: "stable P \<Longrightarrow> P w \<Longrightarrow> P (w\<lparr>f := x\<rparr>)"
  by (simp add: stable_def)

lemma stable_src: "stable P \<Longrightarrow> P w \<Longrightarrow> P (w\<lparr>sourceBitToIdxMap := g\<rparr>)"
  by (simp add: stable_def)

lemma stable_tgt: "stable P \<Longrightarrow> P w \<Longrightarrow> P (w\<lparr>targetBitToIdxMap := g\<rparr>)"
  by (simp add: stable_def)

lemma get_bits_loop_stable:
  "stable P \<Longrightarrow> P w \<Longrightarrow> P (fst (get_bits_loop bits w first str))"
  by (induction bits arbitrary: w first str) (simp_all add: Let_def stable_assign)

lemma get_bits_stable: "stable P \<Longrightarrow> P w \<Longrightarrow> P (fst (get_bits w sig))"
  using get_bits_loop_stable [of P w "map (sigmap w) sig" True "''[''"]
  by (simp add: get_bits_def split_beta)

lemma get_bits_vector_stable: "stable P \<Longrightarrow> P w \<Longrightarrow> P (fst (get_bits_vector w sig))"
  using get_bits_stable [of P w sig]
  by (simp add: get_bits_vector_def split_beta)

lemma updateIndexMap_loop_stable:
  "stable P \<Longrightarrow> P w \<Longrightarrow> P (fst (updateIndexMap_loop bits idx us w iter))"
  by (induction bits arbitrary: w iter) (simp_all add: Let_def stable_assign stable_src stable_tgt)

lemma updateIndexMap_stable: "stable P \<Longrightarrow> P w \<Longrightarrow> P (fst (updateIndexMap w sig idx us))"
  by (simp add: updateIndexMap_def updateIndexMap_loop_stable)

lemma write_port_stable: "stable P \<Longrightarrow> P (fst st) \<Longrightarrow> P (fst (write_port m st p))"
  by (cases st) (simp add: write_port_def Let_def split_beta updateIndexMap_stable stable_f)

lemma write_ports_stable: "stable P \<Longrightarrow> P (fst st) \<Longrightarrow> P (fst (write_ports m ps st))"
  by (induction ps arbitrary: st) (simp_all add: write_port_stable)

lemma write_conn_stable: "stable P \<Longrightarrow> P w \<Longrightarrow> P (write_conn c k w conn)"
  by (simp add: write_conn_def Let_def updateIndexMap_stable)

lemma write_conns_stable: "stable P \<Longrightarrow> P w \<Longrightarrow> P (write_conns c k conns w)"
  by (induction conns arbitrary: w) (simp_all add: write_conn_stable)

lemma write_cell_stable: "stable P \<Longrightarrow> P (fst st) \<Longrightarrow> P (fst (write_cell m st c))"
  by (cases st) (simp add: write_cell_def Let_def write_conns_stable stable_f)

lemma write_cells_stable: "stable P \<Longrightarrow> P (fst st) \<Longrightarrow> P (fst (write_cells m cs st))"
  by (induction cs arbitrary: st) (simp_all add: write_cell_stable)

lemma write_wire_stable: "stable P \<Longrightarrow> P w \<Longrightarrow> P (write_wire m w wr)"
  by (simp add: write_wire_def Let_def split_beta get_bits_vector_stable stable_f)

lemma write_wires_stable: "stable P \<Longrightarrow> P w \<Longrightarrow> P (write_wires m wrs w)"
  by (induction wrs arbitrary: w) (simp_all add: write_wire_stable)

lemma write_module_unfold:
  "write_module w0 m =
     (if has_processes m then Inl (Module_contains_processes (mod_name m), f w0)
      else Inr (write_wires m (wires m) (fst (after_cells w0 m))))"
  by (simp add: write_module_def Let_def split_beta after_cells_def after_ports_def module_start_def)

lemma write_module_stable:
  assumes "stable P" and "P (module_start w0 m)" and "write_module w0 m = Inr w'"
  shows "P w'"
proof -
  have "P (fst (after_ports w0 m))"
    using assms(1,2) by (simp add: after_ports_def write_ports_stable)
  then have "P (fst (after_cells w0 m))"
    using assms(1) by (simp add: after_cells_def write_cells_stable)
  then have "P (write_wires m (wires m) (fst (after_cells w0 m)))"
    using assms(1) by (simp add: write_wires_stable)
  with assms(3) show ?thesis
    by (simp add: write_module_unfold split: if_splits)
qed

section \<open>The edge loops as one loop over the candidates\<close>

lemma edges_of_append: "edges_of (xs @ ys) = edges_of xs @ edges_of ys"
  by (induction xs rule: edges_of.induct) simp_all

lemma pairs_loop_append: "pairs_loop (ps @ qs) st = pairs_loop qs (pairs_loop ps st)"
  by (induction ps st rule: pairs_loop.induct) simp_all

lemma targets_loop_pairs: "targets_loop s ts st = pairs_loop (map (Pair s) ts) st"
  by (induction s ts st rule: targets_loop.induct) simp_all

lemma sources_loop_pairs: "sources_loop ss ts st = pairs_loop (List.product ss ts) st"
  by (induction ss arbitrary: st) (simp_all add: pairs_loop_append targets_loop_pairs)

lemma bits_loop_pairs: "bits_loop src tgt bits st = pairs_loop (candidates src tgt bits) st"
  by (induction bits arbitrary: st) (simp_all add: candidates_def pairs_loop_append sources_loop_pairs)

lemma edges_of_map_Edge: "edges_of (map (\<lambda>(s, t). Edge s t) es) = es"
  by (induction es) auto

text \<open>The loop only appends to the stream, and the slot holds the last edge it appended.\<close>

lemma pairs_loop_out:
  "pairs_loop ps (out, a, b) = (out @ map (\<lambda>(s, t). Edge s t) (run_edges (a, b) ps),
      last ((a, b) # run_edges (a, b) ps))"
proof (induction ps arbitrary: out a b)
  case Nil
  then show ?case by (simp add: run_edges_def)
next
  case (Cons p ps)
  obtain s t where p: "p = (s, t)" by (cases p)
  show ?case
  proof (cases "a = s \<and> b = t")
    case True
    then have "pairs_loop (p # ps) (out, a, b) = pairs_loop ps (out, a, b)"
      and "run_edges (a, b) (p # ps) = run_edges (a, b) ps"
      by (simp_all add: p run_edges_def)
    then show ?thesis by (simp only: Cons)
  next
    case False
    then have step: "pairs_loop (p # ps) (out, a, b) = pairs_loop ps (out @ [Edge s t], s, t)" for out
      by (auto simp add: p)
    have "run_edges (a, b) (p # ps) = edges_of (fst (pairs_loop ps ([] @ [Edge s t], s, t)))"
      unfolding run_edges_def fst_conv snd_conv step ..
    also have "\<dots> = (s, t) # run_edges (s, t) ps"
      by (simp add: Cons edges_of_append edges_of_map_Edge)
    finally have r: "run_edges (a, b) (p # ps) = (s, t) # run_edges (s, t) ps" .
    show ?thesis by (simp add: step r Cons)
  qed
qed

lemma run_edges_Nil: "run_edges slot [] = []"
  by (simp add: run_edges_def)

lemma run_edges_Cons:
  "run_edges slot (c # ps) = (if c = slot then run_edges slot ps else c # run_edges c ps)"
proof -
  obtain s t where c: "c = (s, t)" by (cases c)
  obtain a b where slot: "slot = (a, b)" by (cases slot)
  show ?thesis
    using pairs_loop_out [of ps "[Edge s t]" s t]
    by (auto simp add: c slot run_edges_def edges_of_append edges_of_map_Edge)
qed

lemma run_edges_append:
  "run_edges slot (ps @ qs) = run_edges slot ps @ run_edges (last (slot # run_edges slot ps)) qs"
  by (induction ps arbitrary: slot) (simp_all add: run_edges_Nil run_edges_Cons)

lemma wire_edges_run: "wire_edges src tgt bits = run_edges (0, 0) (candidates src tgt bits)"
  by (simp add: wire_edges_def run_edges_def bits_loop_pairs)

section \<open>What each step leaves alone\<close>

lemma assign_sigid_frame [simp]:
  "f (assign_sigid w b) = f w"
  "use_selection (assign_sigid w b) = use_selection w"
  "sigmap (assign_sigid w b) = sigmap w"
  "sourceBitToIdxMap (assign_sigid w b) = sourceBitToIdxMap w"
  "targetBitToIdxMap (assign_sigid w b) = targetBitToIdxMap w"
  by (simp_all add: assign_sigid_def split: option.split SigBit.split)

lemma get_bits_loop_frame:
  "f (fst (get_bits_loop bits w first str)) = f w \<and>
   use_selection (fst (get_bits_loop bits w first str)) = use_selection w \<and>
   sigmap (fst (get_bits_loop bits w first str)) = sigmap w \<and>
   sourceBitToIdxMap (fst (get_bits_loop bits w first str)) = sourceBitToIdxMap w \<and>
   targetBitToIdxMap (fst (get_bits_loop bits w first str)) = targetBitToIdxMap w"
  by (induction bits arbitrary: w first str) (simp_all add: Let_def)

lemma get_bits_vector_frame [simp]:
  "f (fst (get_bits_vector w sig)) = f w"
  "use_selection (fst (get_bits_vector w sig)) = use_selection w"
  "sigmap (fst (get_bits_vector w sig)) = sigmap w"
  "sourceBitToIdxMap (fst (get_bits_vector w sig)) = sourceBitToIdxMap w"
  "targetBitToIdxMap (fst (get_bits_vector w sig)) = targetBitToIdxMap w"
  using get_bits_loop_frame [of "map (sigmap w) sig" w True "''[''"]
  by (simp_all add: get_bits_vector_def get_bits_def split_beta)

lemma get_bits_vector_snd:
  "snd (get_bits_vector w sig) =
     map (\<lambda>b. sigids_at (fst (get_bits_vector w sig)) (sigmap w b)) sig"
  using get_bits_vector_frame(3) [of w sig]
  by (simp add: get_bits_vector_def get_bits_def split_beta comp_def)

lemma updateIndexMap_loop_frame:
  "f (fst (updateIndexMap_loop bits idx us w iter)) = f w \<and>
   use_selection (fst (updateIndexMap_loop bits idx us w iter)) = use_selection w \<and>
   sigmap (fst (updateIndexMap_loop bits idx us w iter)) = sigmap w \<and>
   snd (updateIndexMap_loop bits idx us w iter) = iter + int (length bits)"
  by (induction bits arbitrary: w iter) (simp_all add: Let_def)

lemma updateIndexMap_frame [simp]:
  "f (fst (updateIndexMap w sig idx us)) = f w"
  "use_selection (fst (updateIndexMap w sig idx us)) = use_selection w"
  "sigmap (fst (updateIndexMap w sig idx us)) = sigmap w"
  "snd (updateIndexMap w sig idx us) = int (length sig)"
  using updateIndexMap_loop_frame [of "map (sigmap w) sig" idx us w 0]
  by (simp_all add: updateIndexMap_def)

lemma length_SigSpec_of_wire [simp]: "length (SigSpec_of_wire p) = width p"
  by (simp add: SigSpec_of_wire_def)

lemma write_conns_frame [simp]:
  "f (write_conns c k conns w) = f w"
  "use_selection (write_conns c k conns w) = use_selection w"
  "sigmap (write_conns c k conns w) = sigmap w"
  by (induction conns arbitrary: w) (simp_all add: write_conn_def Let_def)

section \<open>The output of the three loops\<close>

lemma write_port_out:
  "write_port m (w, k) p = (w1, k1) \<Longrightarrow>
     use_selection w1 = use_selection w \<and> sigmap w1 = sigmap w \<and>
     (if included w m (wire_name p)
      then f w1 = f w @ [NodeOpen k (wire_name p), PortType (port_type p), NodeClose]
           \<and> k1 = k + int (width p)
      else f w1 = f w \<and> k1 = k)"
  by (auto simp add: write_port_def included_def Let_def split_beta)

lemma write_cell_out:
  "write_cell m (w, k) c = (w1, k1) \<Longrightarrow>
     use_selection w1 = use_selection w \<and> sigmap w1 = sigmap w \<and>
     (if included w m (cell_name c)
      then f w1 = f w @ [NodeOpen k (cell_name c), CellType (cell_type c), NodeClose]
           \<and> k1 = k + 1
      else f w1 = f w \<and> k1 = k)"
  by (auto simp add: write_cell_def included_def Let_def split_beta)

lemma port_nodes_Nil [simp]: "port_nodes k [] = []"
  by (simp add: port_nodes_def)

lemma port_nodes_Cons [simp]:
  "port_nodes k (p # ps) = (k, wire_name p) # port_nodes (k + int (width p)) ps"
  by (simp add: port_nodes_def map_upt_Suc add.assoc del: upt_Suc)

lemma cell_nodes_Nil [simp]: "cell_nodes k [] = []"
  by (simp add: cell_nodes_def)

lemma cell_nodes_Cons [simp]:
  "cell_nodes k (c # cs) = (k, cell_name c) # cell_nodes (k + 1) cs"
  by (simp add: cell_nodes_def map_upt_Suc add.assoc del: upt_Suc)

lemma total_width_simps [simp]:
  "total_width [] = 0" "total_width (p # ps) = int (width p) + total_width ps"
  by (simp_all add: total_width_def)

lemma node_recs_append: "node_recs (xs @ ys) = node_recs xs @ node_recs ys"
  by (induction xs rule: node_recs.induct) simp_all

lemma write_ports_out:
  "write_ports m ps (w, k) = (w1, k1) \<Longrightarrow>
     use_selection w1 = use_selection w \<and> sigmap w1 = sigmap w \<and>
     k1 = k + total_width (filter (\<lambda>p. included w m (wire_name p)) ps) \<and>
     (\<exists>ls. f w1 = f w @ ls \<and> edges_of ls = [] \<and>
           node_recs ls = port_nodes k (filter (\<lambda>p. included w m (wire_name p)) ps))"
proof (induction ps arbitrary: w k)
  case Nil
  then show ?case by simp
next
  case (Cons p ps)
  obtain w2 k2 where step: "write_port m (w, k) p = (w2, k2)" by (cases "write_port m (w, k) p")
  note o = write_port_out [OF step]
  from Cons.prems step have rest: "write_ports m ps (w2, k2) = (w1, k1)" by simp
  note ih = Cons.IH [OF rest]
  have inc: "included w2 m = included w m" using o by (simp add: included_def fun_eq_iff)
  from ih obtain ls where ls: "f w1 = f w2 @ ls" "edges_of ls = []"
    "node_recs ls = port_nodes k2 (filter (\<lambda>p. included w m (wire_name p)) ps)"
    by (auto simp add: inc)
  show ?case
  proof (cases "included w m (wire_name p)")
    case True
    with o have fw2: "f w2 = f w @ [NodeOpen k (wire_name p), PortType (port_type p), NodeClose]"
      and k2: "k2 = k + int (width p)" by simp_all
    have "f w1 = f w @ ([NodeOpen k (wire_name p), PortType (port_type p), NodeClose] @ ls)"
      using ls(1) fw2 by simp
    moreover have "edges_of ([NodeOpen k (wire_name p), PortType (port_type p), NodeClose] @ ls) = []"
      using ls(2) by simp
    moreover have "node_recs ([NodeOpen k (wire_name p), PortType (port_type p), NodeClose] @ ls)
        = port_nodes k (filter (\<lambda>p. included w m (wire_name p)) (p # ps))"
      using ls(3) True k2 by simp
    ultimately show ?thesis using ih o True k2 inc by (simp del: append.simps)
  next
    case False
    with o have "f w2 = f w" "k2 = k" by simp_all
    then show ?thesis using ih o False ls inc by auto
  qed
qed

lemma write_cells_out:
  "write_cells m cs (w, k) = (w1, k1) \<Longrightarrow>
     use_selection w1 = use_selection w \<and> sigmap w1 = sigmap w \<and>
     k1 = k + int (length (filter (\<lambda>c. included w m (cell_name c)) cs)) \<and>
     (\<exists>ls. f w1 = f w @ ls \<and> edges_of ls = [] \<and>
           node_recs ls = cell_nodes k (filter (\<lambda>c. included w m (cell_name c)) cs))"
proof (induction cs arbitrary: w k)
  case Nil
  then show ?case by simp
next
  case (Cons c cs)
  obtain w2 k2 where step: "write_cell m (w, k) c = (w2, k2)" by (cases "write_cell m (w, k) c")
  note o = write_cell_out [OF step]
  from Cons.prems step have rest: "write_cells m cs (w2, k2) = (w1, k1)" by simp
  note ih = Cons.IH [OF rest]
  have inc: "included w2 m = included w m" using o by (simp add: included_def fun_eq_iff)
  from ih obtain ls where ls: "f w1 = f w2 @ ls" "edges_of ls = []"
    "node_recs ls = cell_nodes k2 (filter (\<lambda>c. included w m (cell_name c)) cs)"
    by (auto simp add: inc)
  show ?case
  proof (cases "included w m (cell_name c)")
    case True
    with o have fw2: "f w2 = f w @ [NodeOpen k (cell_name c), CellType (cell_type c), NodeClose]"
      and k2: "k2 = k + 1" by simp_all
    have "f w1 = f w @ ([NodeOpen k (cell_name c), CellType (cell_type c), NodeClose] @ ls)"
      using ls(1) fw2 by simp
    moreover have "edges_of ([NodeOpen k (cell_name c), CellType (cell_type c), NodeClose] @ ls) = []"
      using ls(2) by simp
    moreover have "node_recs ([NodeOpen k (cell_name c), CellType (cell_type c), NodeClose] @ ls)
        = cell_nodes k (filter (\<lambda>c. included w m (cell_name c)) (c # cs))"
      using ls(3) True k2 by simp
    ultimately show ?thesis using ih o True k2 inc by (simp del: append.simps)
  next
    case False
    with o have "f w2 = f w" "k2 = k" by simp_all
    then show ?thesis using ih o False ls inc by auto
  qed
qed

lemma node_recs_map_Edge [simp]: "node_recs (map (\<lambda>(s, t). Edge s t) es) = []"
  by (induction es) auto

lemma bits_loop_out:
  "fst (bits_loop src tgt bits (out, 0, 0)) = out @ map (\<lambda>(s, t). Edge s t) (wire_edges src tgt bits)"
  by (simp add: bits_loop_pairs pairs_loop_out wire_edges_run)

lemma write_wire_frame [simp]:
  "use_selection (write_wire m w wr) = use_selection w"
  "sigmap (write_wire m w wr) = sigmap w"
  "sourceBitToIdxMap (write_wire m w wr) = sourceBitToIdxMap w"
  "targetBitToIdxMap (write_wire m w wr) = targetBitToIdxMap w"
  by (simp_all add: write_wire_def Let_def split_beta)

lemma write_wire_out:
  "f (write_wire m w wr) =
     f w @ (if included w m (wire_name wr)
            then map (\<lambda>(s, t). Edge s t)
                   (wire_edges (sourceBitToIdxMap w) (targetBitToIdxMap w)
                      (snd (get_bits_vector w (SigSpec_of_wire wr))))
            else [])"
proof (cases "included w m (wire_name wr)")
  case False
  then show ?thesis by (simp add: write_wire_def included_def)
next
  case True
  let ?g = "get_bits_vector w (SigSpec_of_wire wr)"
  have "f (write_wire m w wr) =
      fst (bits_loop (sourceBitToIdxMap (fst ?g)) (targetBitToIdxMap (fst ?g)) (snd ?g) (f (fst ?g), 0, 0))"
    using True by (auto simp add: write_wire_def included_def Let_def split_beta)
  then show ?thesis using True by (simp add: bits_loop_out)
qed

lemma write_wires_frame [simp]:
  "use_selection (write_wires m wrs w) = use_selection w"
  "sigmap (write_wires m wrs w) = sigmap w"
  "sourceBitToIdxMap (write_wires m wrs w) = sourceBitToIdxMap w"
  "targetBitToIdxMap (write_wires m wrs w) = targetBitToIdxMap w"
  by (induction wrs arbitrary: w) simp_all

lemma run_edges_subset: "set (run_edges slot ps) \<subseteq> set ps"
  by (induction ps arbitrary: slot) (auto simp add: run_edges_Nil run_edges_Cons)

lemma candidates_mem:
  "(s, t) \<in> set (candidates src tgt bits) \<Longrightarrow> \<exists>k\<in>set bits. s \<in> set (src k) \<and> t \<in> set (tgt k)"
  by (auto simp add: candidates_def)

lemma wire_edges_mem:
  "(s, t) \<in> set (wire_edges src tgt bits) \<Longrightarrow> \<exists>k\<in>set bits. s \<in> set (src k) \<and> t \<in> set (tgt k)"
  using run_edges_subset [of "(0, 0)" "candidates src tgt bits"] candidates_mem [of s t src tgt bits]
  by (auto simp add: wire_edges_run)

section \<open>Identifiers, once assigned, stay\<close>

lemma stable_sigid: "stable (\<lambda>w. sigids w b = Some s)"
  by (auto simp add: stable_def assign_sigid_def split: option.split SigBit.split)

lemma assign_sigid_assigned: "sigids (assign_sigid w b) b \<noteq> None"
  by (simp add: assign_sigid_def split: option.split SigBit.split)

lemma get_bits_loop_assigned:
  "b \<in> set bits \<Longrightarrow> sigids (fst (get_bits_loop bits w first str)) b \<noteq> None"
proof (induction bits arbitrary: w first str)
  case Nil
  then show ?case by simp
next
  case (Cons a bits)
  show ?case
  proof (cases "b = a")
    case True
    obtain s where "sigids (assign_sigid w a) a = Some s"
      using assign_sigid_assigned [of w a] by auto
    then have "sigids (fst (get_bits_loop bits (assign_sigid w a) False
         ((str @ (if first then '' '' else '', '')) @ sigids_at (assign_sigid w a) a))) a = Some s"
      using get_bits_loop_stable [OF stable_sigid] by blast
    then show ?thesis using True by (simp add: Let_def)
  next
    case False
    with Cons show ?thesis by (simp add: Let_def)
  qed
qed

lemma get_bits_vector_assigned:
  "b \<in> set sig \<Longrightarrow> sigids (fst (get_bits_vector w sig)) (sigmap w b) \<noteq> None"
  using get_bits_loop_assigned [of "sigmap w b" "map (sigmap w) sig" w True "''[''"]
  by (simp add: get_bits_vector_def get_bits_def split_beta)

lemma sigids_at_stable:
  assumes "sigids w b \<noteq> None" and "\<And>s. sigids w b = Some s \<Longrightarrow> sigids w1 b = Some s"
  shows "sigids_at w1 b = sigids_at w b"
  using assms by (auto simp add: sigids_at_def)

lemma write_wire_sigid:
  "sigids w b = Some s \<Longrightarrow> sigids (write_wire m w wr) b = Some s"
  using write_wire_stable [OF stable_sigid] .

lemma write_wires_sigid:
  "sigids w b = Some s \<Longrightarrow> sigids (write_wires m wrs w) b = Some s"
  using write_wires_stable [OF stable_sigid] .

lemma write_wire_bit_ids:
  assumes "included w m (wire_name wr)"
    and later: "\<And>b s. sigids (write_wire m w wr) b = Some s \<Longrightarrow> sigids w1 b = Some s"
    and sm: "sigmap w1 = sigmap w"
  shows "snd (get_bits_vector w (SigSpec_of_wire wr)) = wire_bit_ids w1 wr"
proof -
  let ?g = "get_bits_vector w (SigSpec_of_wire wr)"
  have ww: "sigids (write_wire m w wr) = sigids (fst ?g)"
    using assms(1) by (auto simp add: write_wire_def included_def Let_def split_beta)
  have "sigids_at w1 (sigmap w b) = sigids_at (fst ?g) (sigmap w b)" if "b \<in> set (SigSpec_of_wire wr)" for b
    using get_bits_vector_assigned [OF that, of w] later ww
    by (intro sigids_at_stable) auto
  then show ?thesis
    by (simp add: get_bits_vector_snd wire_bit_ids_def sm)
qed

lemma write_wires_out:
  "\<exists>es. f (write_wires m wrs w) = f w @ map (\<lambda>(s, t). Edge s t) es \<and>
     (\<forall>(s, t)\<in>set es. \<exists>wr\<in>set wrs. included w m (wire_name wr) \<and>
        (\<exists>k\<in>set (wire_bit_ids (write_wires m wrs w) wr).
            s \<in> set (sourceBitToIdxMap w k) \<and> t \<in> set (targetBitToIdxMap w k)))"
proof (induction wrs arbitrary: w)
  case Nil
  show ?case by simp
next
  case (Cons wr wrs)
  let ?w1 = "write_wire m w wr"
  let ?W = "write_wires m wrs ?w1"
  let ?here = "if included w m (wire_name wr)
            then wire_edges (sourceBitToIdxMap w) (targetBitToIdxMap w)
                      (snd (get_bits_vector w (SigSpec_of_wire wr)))
            else []"
  have inc: "included ?w1 m = included w m" by (simp add: included_def fun_eq_iff)
  from Cons [of ?w1] obtain es where es: "f ?W = f ?w1 @ map (\<lambda>(s, t). Edge s t) es"
    and mem: "\<forall>(s, t)\<in>set es. \<exists>wr\<in>set wrs. included w m (wire_name wr) \<and>
        (\<exists>k\<in>set (wire_bit_ids ?W wr).
            s \<in> set (sourceBitToIdxMap w k) \<and> t \<in> set (targetBitToIdxMap w k))"
    by (auto simp add: inc)
  have out: "f ?W = f w @ map (\<lambda>(s, t). Edge s t) (?here @ es)"
    using es by (simp add: write_wire_out)
  have here: "\<exists>k\<in>set (wire_bit_ids ?W wr).
            s \<in> set (sourceBitToIdxMap w k) \<and> t \<in> set (targetBitToIdxMap w k)"
    if "(s, t) \<in> set ?here" for s t
  proof -
    from that have i: "included w m (wire_name wr)" by (auto split: if_splits)
    have "snd (get_bits_vector w (SigSpec_of_wire wr)) = wire_bit_ids ?W wr"
      using i by (rule write_wire_bit_ids) (simp_all add: write_wires_sigid)
    with that i show ?thesis using wire_edges_mem by auto
  qed
  have all: "\<forall>(s, t)\<in>set (?here @ es). \<exists>wr'\<in>set (wr # wrs). included w m (wire_name wr') \<and>
        (\<exists>k\<in>set (wire_bit_ids ?W wr').
            s \<in> set (sourceBitToIdxMap w k) \<and> t \<in> set (targetBitToIdxMap w k))"
  proof (clarify)
    fix s t assume "(s, t) \<in> set (?here @ es)"
    then consider "(s, t) \<in> set ?here" | "(s, t) \<in> set es" by auto
    then show "\<exists>wr'\<in>set (wr # wrs). included w m (wire_name wr') \<and>
        (\<exists>k\<in>set (wire_bit_ids ?W wr').
            s \<in> set (sourceBitToIdxMap w k) \<and> t \<in> set (targetBitToIdxMap w k))"
    proof cases
      case 1
      then have "included w m (wire_name wr)" by (auto split: if_splits)
      with here [OF 1] show ?thesis by auto
    next
      case 2
      with mem obtain wr' where "wr' \<in> set wrs" "included w m (wire_name wr')"
        "\<exists>k\<in>set (wire_bit_ids ?W wr').
            s \<in> set (sourceBitToIdxMap w k) \<and> t \<in> set (targetBitToIdxMap w k)"
        by blast
      then show ?thesis by auto
    qed
  qed
  show ?case
    unfolding write_wires.simps
    by (rule exI [of _ "?here @ es"], rule conjI, rule out, rule all)
qed

section \<open>The output of a whole module\<close>

lemma module_start_frame [simp]:
  "f (module_start w0 m) = f w0"
  "use_selection (module_start w0 m) = use_selection w0"
  "sigmap (module_start w0 m) = sigmap_of m"
  "sourceBitToIdxMap (module_start w0 m) = sourceBitToIdxMap w0"
  "targetBitToIdxMap (module_start w0 m) = targetBitToIdxMap w0"
  by (simp_all add: module_start_def)

lemma included_cong: "use_selection w1 = use_selection w \<Longrightarrow> included w1 m = included w m"
  by (simp add: included_def fun_eq_iff)

lemma edges_of_map_Edge_mem:
  "Edge s t \<in> set ls \<Longrightarrow> (s, t) \<in> set (edges_of ls)"
  by (induction ls rule: edges_of.induct) auto

lemma write_module_Inr:
  "write_module w0 m = Inr w1 \<longleftrightarrow>
     \<not> has_processes m \<and> w1 = write_wires m (wires m) (fst (after_cells w0 m))"
  by (auto simp add: write_module_unfold)

lemma write_module_after_wires:
  "\<not> has_processes m \<Longrightarrow> write_module w0 m = Inr (after_wires w0 m)"
  by (simp add: write_module_Inr after_wires_def)

lemma write_module_lines:
  assumes "write_module w0 m = Inr w1"
  shows "\<exists>ls1 ls2 es.
     module_lines w0 m = ls1 @ ls2 @ map (\<lambda>(s, t). Edge s t) es \<and>
     edges_of ls1 = [] \<and>
     node_recs ls1 = port_nodes 2 (filter (\<lambda>p. included w0 m (wire_name p)) (ports m)) \<and>
     edges_of ls2 = [] \<and>
     node_recs ls2 =
       cell_nodes (2 + total_width (filter (\<lambda>p. included w0 m (wire_name p)) (ports m)))
         (filter (\<lambda>c. included w0 m (cell_name c)) (cells m)) \<and>
     (\<forall>(s, t)\<in>set es. \<exists>wr\<in>set (wires m). included w0 m (wire_name wr) \<and>
        (\<exists>k\<in>set (wire_bit_ids w1 wr).
            s \<in> set (sourceBitToIdxMap w1 k) \<and> t \<in> set (targetBitToIdxMap w1 k)))"
proof -
  obtain wp kp where ap: "after_ports w0 m = (wp, kp)" by (cases "after_ports w0 m")
  obtain wc kc where ac: "after_cells w0 m = (wc, kc)" by (cases "after_cells w0 m")
  from assms have w1: "w1 = write_wires m (wires m) wc"
    by (simp add: write_module_Inr ac)
  have "write_ports m (ports m) (module_start w0 m, 2) = (wp, kp)"
    using ap by (simp add: after_ports_def)
  from write_ports_out [OF this] obtain ls1 where
    p: "use_selection wp = use_selection w0" "sigmap wp = sigmap_of m"
       "kp = 2 + total_width (filter (\<lambda>p. included w0 m (wire_name p)) (ports m))"
       "f wp = f w0 @ ls1" "edges_of ls1 = []"
       "node_recs ls1 = port_nodes 2 (filter (\<lambda>p. included w0 m (wire_name p)) (ports m))"
    by (auto simp add: included_cong [of "module_start w0 m" w0])
  have "write_cells m (cells m) (wp, kp) = (wc, kc)"
    using ac ap by (simp add: after_cells_def)
  from write_cells_out [OF this] obtain ls2 where
    c: "use_selection wc = use_selection w0" "sigmap wc = sigmap_of m"
       "f wc = f wp @ ls2" "edges_of ls2 = []"
       "node_recs ls2 = cell_nodes kp (filter (\<lambda>c. included w0 m (cell_name c)) (cells m))"
    using p(1,2) by (auto simp add: included_cong [of wp w0])
  from write_wires_out [of m "wires m" wc] obtain es where
    e: "f w1 = f wc @ map (\<lambda>(s, t). Edge s t) es"
       "\<forall>(s, t)\<in>set es. \<exists>wr\<in>set (wires m). included wc m (wire_name wr) \<and>
        (\<exists>k\<in>set (wire_bit_ids w1 wr).
            s \<in> set (sourceBitToIdxMap wc k) \<and> t \<in> set (targetBitToIdxMap wc k))"
    unfolding w1 by blast
  have maps: "sourceBitToIdxMap w1 = sourceBitToIdxMap wc" "targetBitToIdxMap w1 = targetBitToIdxMap wc"
    by (simp_all add: w1)
  have "module_lines w0 m = ls1 @ ls2 @ map (\<lambda>(s, t). Edge s t) es"
    using assms e(1) c(3) p(4) by (simp add: module_lines_def)
  moreover have "\<forall>(s, t)\<in>set es. \<exists>wr\<in>set (wires m). included w0 m (wire_name wr) \<and>
        (\<exists>k\<in>set (wire_bit_ids w1 wr).
            s \<in> set (sourceBitToIdxMap w1 k) \<and> t \<in> set (targetBitToIdxMap w1 k))"
    using e(2) by (simp add: maps included_cong [OF c(1)])
  ultimately show ?thesis using p(5,6) c(4,5) p(3) by blast
qed

section \<open>Node numbering\<close>

lemma total_width_nonneg: "0 \<le> total_width ps"
  by (induction ps) simp_all

lemma port_nodes_bounds:
  "\<forall>q\<in>set ps. 0 < width q \<Longrightarrow>
     sorted_wrt (<) (map fst (port_nodes k ps)) \<and>
     (\<forall>x\<in>set (port_nodes k ps). k \<le> fst x \<and> fst x < k + total_width ps)"
proof (induction ps arbitrary: k)
  case Nil
  then show ?case by simp
next
  case (Cons p ps)
  then have ih: "sorted_wrt (<) (map fst (port_nodes (k + int (width p)) ps))"
     "\<forall>x\<in>set (port_nodes (k + int (width p)) ps).
          k + int (width p) \<le> fst x \<and> fst x < k + int (width p) + total_width ps"
    by simp_all
  have w: "0 < int (width p)" and tw: "0 \<le> total_width ps"
    using Cons.prems by (simp_all add: total_width_nonneg)
  show ?case using ih w tw by (auto simp add: add.assoc)
qed

lemma cell_nodes_bounds:
  "sorted_wrt (<) (map fst (cell_nodes k cs)) \<and> (\<forall>x\<in>set (cell_nodes k cs). k \<le> fst x)"
proof (induction cs arbitrary: k)
  case Nil
  then show ?case by simp
next
  case (Cons c cs)
  from Cons [of "k + 1"] show ?case by force
qed

section \<open>The identifier table\<close>

lemma sigids_ok_start: "sigids_ok (module_start w0 m)"
  by (simp add: sigids_ok_def module_start_def)

lemma sigids_ok_assign:
  assumes "sigids_ok w"
  shows "sigids_ok (assign_sigid w b)"
proof (cases "sigids w b")
  case (Some s)
  with assms show ?thesis by (simp add: assign_sigid_def)
next
  case None
  show ?thesis
  proof (cases b)
    case (Const c)
    have eq: "assign_sigid w b = w\<lparr>sigids := (sigids w)(b \<mapsto> const_token c)\<rparr>"
      using None Const by (simp add: assign_sigid_def)
    show ?thesis
      unfolding eq sigids_ok_def
    proof (intro conjI allI impI)
      show "2 \<le> sigidcounter (w\<lparr>sigids := (sigids w)(b \<mapsto> const_token c)\<rparr>)"
        using assms by (simp add: sigids_ok_def)
    next
      fix c' s
      assume "sigids (w\<lparr>sigids := (sigids w)(b \<mapsto> const_token c)\<rparr>) (Const c') = Some s"
      then show "s = const_token c'"
        using assms Const by (auto simp add: sigids_ok_def split: if_splits)
    next
      fix n i s
      assume "sigids (w\<lparr>sigids := (sigids w)(b \<mapsto> const_token c)\<rparr>) (WireBit n i) = Some s"
      then have "sigids w (WireBit n i) = Some s" using Const by (simp split: if_splits)
      then show "\<exists>k\<ge>2. k < sigidcounter (w\<lparr>sigids := (sigids w)(b \<mapsto> const_token c)\<rparr>) \<and> s = stringf_d k"
        using assms by (simp add: sigids_ok_def)
    next
      fix b1 b2 k
      assume h: "sigids (w\<lparr>sigids := (sigids w)(b \<mapsto> const_token c)\<rparr>) b1 = Some (stringf_d k) \<and>
                 sigids (w\<lparr>sigids := (sigids w)(b \<mapsto> const_token c)\<rparr>) b2 = Some (stringf_d k)"
      then have "b1 \<noteq> b" "b2 \<noteq> b"
        using const_token_not_stringf_d [of c k] by auto
      with h have "sigids w b1 = Some (stringf_d k) \<and> sigids w b2 = Some (stringf_d k)" by simp
      with assms show "b1 = b2" unfolding sigids_ok_def by blast
    qed
  next
    case (WireBit n i)
    let ?w = "w\<lparr>sigids := (sigids w)(b \<mapsto> stringf_d (sigidcounter w)), sigidcounter := sigidcounter w + 1\<rparr>"
    have eq: "assign_sigid w b = ?w"
      using None WireBit by (simp add: assign_sigid_def)
    have old: "k < sigidcounter w" if "sigids w b' = Some (stringf_d k)" for b' k
    proof (cases b')
      case (Const c)
      with that assms have "stringf_d k = const_token c" by (simp add: sigids_ok_def)
      with const_token_not_stringf_d [of c k] show ?thesis by simp
    next
      case (WireBit n' i')
      with that assms obtain k' where "k' < sigidcounter w" "stringf_d k = stringf_d k'"
        unfolding sigids_ok_def by blast
      with stringf_d_inj show ?thesis by blast
    qed
    show ?thesis
      unfolding eq sigids_ok_def
    proof (intro conjI allI impI)
      show "2 \<le> sigidcounter ?w" using assms by (simp add: sigids_ok_def)
    next
      fix c s
      assume "sigids ?w (Const c) = Some s"
      then show "s = const_token c"
        using assms WireBit by (auto simp add: sigids_ok_def split: if_splits)
    next
      fix n' i' s
      assume h: "sigids ?w (WireBit n' i') = Some s"
      show "\<exists>k\<ge>2. k < sigidcounter ?w \<and> s = stringf_d k"
      proof (cases "WireBit n' i' = b")
        case True
        with h have "s = stringf_d (sigidcounter w)" by simp
        then show ?thesis using assms by (auto simp add: sigids_ok_def)
      next
        case False
        with h have "sigids w (WireBit n' i') = Some s" by simp
        with assms obtain k where "2 \<le> k" "k < sigidcounter w" "s = stringf_d k"
          unfolding sigids_ok_def by blast
        then show ?thesis by auto
      qed
    next
      fix b1 b2 k
      assume h: "sigids ?w b1 = Some (stringf_d k) \<and> sigids ?w b2 = Some (stringf_d k)"
      show "b1 = b2"
      proof (cases "b1 = b"; cases "b2 = b")
        assume "b1 = b" "b2 = b" then show ?thesis by simp
      next
        assume a: "b1 = b" "b2 \<noteq> b"
        with h have "stringf_d k = stringf_d (sigidcounter w)" by simp
        then have "k = sigidcounter w" by (rule stringf_d_inj)
        moreover from a h have "sigids w b2 = Some (stringf_d k)" by simp
        then have "k < sigidcounter w" by (rule old)
        ultimately show ?thesis by simp
      next
        assume a: "b1 \<noteq> b" "b2 = b"
        with h have "stringf_d k = stringf_d (sigidcounter w)" by simp
        then have "k = sigidcounter w" by (rule stringf_d_inj)
        moreover from a h have "sigids w b1 = Some (stringf_d k)" by simp
        then have "k < sigidcounter w" by (rule old)
        ultimately show ?thesis by simp
      next
        assume "b1 \<noteq> b" "b2 \<noteq> b"
        with h have "sigids w b1 = Some (stringf_d k) \<and> sigids w b2 = Some (stringf_d k)" by simp
        with assms show ?thesis unfolding sigids_ok_def by blast
      qed
    qed
  qed
qed

lemma stable_sigids_ok: "stable sigids_ok"
  unfolding stable_def
proof (intro conjI allI impI)
  fix w b assume "sigids_ok w" then show "sigids_ok (assign_sigid w b)" by (rule sigids_ok_assign)
qed (simp_all add: sigids_ok_def)

lemma write_module_sigids_ok: "write_module w0 m = Inr w1 \<Longrightarrow> sigids_ok w1"
  using write_module_stable [OF stable_sigids_ok sigids_ok_start] .

lemma stringf_d_ge2: "2 \<le> k \<Longrightarrow> stringf_d k \<noteq> ''0'' \<and> stringf_d k \<noteq> ''1''"
  using stringf_d_inj [of k 0] stringf_d_inj [of k 1] by (auto simp add: stringf_d_0 stringf_d_1)

lemma after_ports_sigids_ok: "sigids_ok (fst (after_ports w0 m))"
  by (simp add: after_ports_def write_ports_stable [OF stable_sigids_ok] sigids_ok_start)

lemma after_cells_sigids_ok: "sigids_ok (fst (after_cells w0 m))"
  by (simp add: after_cells_def write_cells_stable [OF stable_sigids_ok] after_ports_sigids_ok)

section \<open>Node ids in the connectivity maps\<close>

lemma map_ids_ge2_new: "map_ids_ge2 (GmlWriter_new out sel aig cim)"
  by (simp add: map_ids_ge2_def GmlWriter_new_def)

lemma map_ids_ge2_cong:
  "sourceBitToIdxMap w1 = sourceBitToIdxMap w \<Longrightarrow> targetBitToIdxMap w1 = targetBitToIdxMap w \<Longrightarrow>
     map_ids_ge2 w1 = map_ids_ge2 w"
  by (simp add: map_ids_ge2_def)

lemma updateIndexMap_loop_ge2:
  "2 \<le> idx \<Longrightarrow> map_ids_ge2 w \<Longrightarrow> map_ids_ge2 (fst (updateIndexMap_loop bits idx us w iter))"
proof (induction bits arbitrary: w iter)
  case Nil
  then show ?case by simp
next
  case (Cons b bits)
  let ?w1 = "assign_sigid w b"
  let ?k = "sigids_at ?w1 b"
  let ?w2 = "if us
       then ?w1\<lparr>sourceBitToIdxMap := (sourceBitToIdxMap ?w1)(?k := sourceBitToIdxMap ?w1 ?k @ [idx])\<rparr>
       else ?w1\<lparr>targetBitToIdxMap := (targetBitToIdxMap ?w1)(?k := targetBitToIdxMap ?w1 ?k @ [idx])\<rparr>"
  have "map_ids_ge2 ?w1" using Cons.prems(2) by (simp add: map_ids_ge2_def)
  then have "map_ids_ge2 ?w2" using Cons.prems(1) by (auto simp add: map_ids_ge2_def)
  from Cons.IH [OF Cons.prems(1) this] show ?case by (simp add: Let_def)
qed

lemma updateIndexMap_ge2:
  "2 \<le> idx \<Longrightarrow> map_ids_ge2 w \<Longrightarrow> map_ids_ge2 (fst (updateIndexMap w sig idx us))"
  by (simp add: updateIndexMap_def updateIndexMap_loop_ge2)

lemma map_ids_ge2_f: "map_ids_ge2 (w\<lparr>f := x\<rparr>) = map_ids_ge2 w"
  by (simp add: map_ids_ge2_def)

lemma write_port_ge2:
  "2 \<le> snd st \<Longrightarrow> map_ids_ge2 (fst st) \<Longrightarrow>
     2 \<le> snd (write_port m st p) \<and> map_ids_ge2 (fst (write_port m st p))"
  by (cases st) (simp add: write_port_def Let_def split_beta updateIndexMap_ge2 map_ids_ge2_f)

lemma write_ports_ge2:
  "2 \<le> snd st \<Longrightarrow> map_ids_ge2 (fst st) \<Longrightarrow>
     2 \<le> snd (write_ports m ps st) \<and> map_ids_ge2 (fst (write_ports m ps st))"
  by (induction ps arbitrary: st) (simp_all add: write_port_ge2)

lemma write_conns_ge2:
  "2 \<le> k \<Longrightarrow> map_ids_ge2 w \<Longrightarrow> map_ids_ge2 (write_conns c k conns w)"
  by (induction conns arbitrary: w) (simp_all add: write_conn_def Let_def updateIndexMap_ge2)

lemma write_cell_ge2:
  "2 \<le> snd st \<Longrightarrow> map_ids_ge2 (fst st) \<Longrightarrow>
     2 \<le> snd (write_cell m st c) \<and> map_ids_ge2 (fst (write_cell m st c))"
  by (cases st) (simp add: write_cell_def Let_def write_conns_ge2 map_ids_ge2_f)

lemma write_cells_ge2:
  "2 \<le> snd st \<Longrightarrow> map_ids_ge2 (fst st) \<Longrightarrow>
     2 \<le> snd (write_cells m cs st) \<and> map_ids_ge2 (fst (write_cells m cs st))"
  by (induction cs arbitrary: st) (simp_all add: write_cell_ge2)

lemma after_cells_ge2:
  assumes "map_ids_ge2 w0"
  shows "map_ids_ge2 (fst (after_cells w0 m))"
proof -
  have "map_ids_ge2 (module_start w0 m)"
    using assms by (simp add: map_ids_ge2_cong [of "module_start w0 m" w0])
  then have "2 \<le> snd (after_ports w0 m) \<and> map_ids_ge2 (fst (after_ports w0 m))"
    unfolding after_ports_def by (intro write_ports_ge2) simp_all
  then show ?thesis
    unfolding after_cells_def using write_cells_ge2 by blast
qed

lemma write_wire_ge2: "map_ids_ge2 (write_wire m w wr) = map_ids_ge2 w"
  by (rule map_ids_ge2_cong) simp_all

lemma write_wires_ge2: "map_ids_ge2 (write_wires m wrs w) = map_ids_ge2 w"
  by (rule map_ids_ge2_cong) simp_all

lemma write_module_ge2:
  "map_ids_ge2 w0 \<Longrightarrow> write_module w0 m = Inr w1 \<Longrightarrow> map_ids_ge2 w1"
  by (simp add: write_module_Inr write_wires_ge2 after_cells_ge2)

lemma candidates_ge2:
  assumes "\<forall>k. \<forall>i\<in>set (src k). 2 \<le> i"
  shows "(0, 0) \<notin> set (candidates src tgt bits)"
proof
  assume "(0, 0) \<in> set (candidates src tgt bits)"
  then obtain k where "(0::int) \<in> set (src k)" using candidates_mem by blast
  with assms have "(2::int) \<le> 0" by blast
  then show False by simp
qed

section \<open>The two flags\<close>

lemma set_flags_fields [simp]:
  "f (set_flags a c w) = f w"
  "use_selection (set_flags a c w) = use_selection w"
  "sigmap (set_flags a c w) = sigmap w"
  "sigids (set_flags a c w) = sigids w"
  "sigidcounter (set_flags a c w) = sigidcounter w"
  "sourceBitToIdxMap (set_flags a c w) = sourceBitToIdxMap w"
  "targetBitToIdxMap (set_flags a c w) = targetBitToIdxMap w"
  by (simp_all add: set_flags_def)

lemma set_flags_updates [simp]:
  "(set_flags a c w)\<lparr>f := x\<rparr> = set_flags a c (w\<lparr>f := x\<rparr>)"
  "(set_flags a c w)\<lparr>sourceBitToIdxMap := g\<rparr> = set_flags a c (w\<lparr>sourceBitToIdxMap := g\<rparr>)"
  "(set_flags a c w)\<lparr>targetBitToIdxMap := g\<rparr> = set_flags a c (w\<lparr>targetBitToIdxMap := g\<rparr>)"
  by (simp_all add: set_flags_def)

lemma assign_sigid_flags [simp]:
  "assign_sigid (set_flags a c w) b = set_flags a c (assign_sigid w b)"
  by (simp add: assign_sigid_def set_flags_def split: option.split SigBit.split)

lemma sigids_at_flags [simp]: "sigids_at (set_flags a c w) b = sigids_at w b"
  by (simp add: sigids_at_def)

lemma get_bits_loop_flags:
  "get_bits_loop bits (set_flags a c w) first str =
     map_prod (set_flags a c) id (get_bits_loop bits w first str)"
  by (induction bits arbitrary: w first str) (simp_all add: Let_def)

lemma get_bits_vector_flags:
  "get_bits_vector (set_flags a c w) sig = map_prod (set_flags a c) id (get_bits_vector w sig)"
  by (simp add: get_bits_vector_def get_bits_def get_bits_loop_flags split_beta)

lemma updateIndexMap_loop_flags:
  "updateIndexMap_loop bits idx us (set_flags a c w) iter =
     map_prod (set_flags a c) id (updateIndexMap_loop bits idx us w iter)"
  by (induction bits arbitrary: w iter) (auto simp add: Let_def)

lemma updateIndexMap_flags:
  "updateIndexMap (set_flags a c w) sig idx us = map_prod (set_flags a c) id (updateIndexMap w sig idx us)"
  by (simp add: updateIndexMap_def updateIndexMap_loop_flags)

lemma write_port_flags:
  "write_port m (map_prod (set_flags a c) id st) p = map_prod (set_flags a c) id (write_port m st p)"
  by (cases st) (simp add: write_port_def Let_def split_beta updateIndexMap_flags)

lemma write_ports_flags:
  "write_ports m ps (map_prod (set_flags a c) id st) = map_prod (set_flags a c) id (write_ports m ps st)"
  by (induction ps arbitrary: st) (simp_all add: write_port_flags)

lemma write_conn_flags:
  "write_conn cl k (set_flags a c w) conn = set_flags a c (write_conn cl k w conn)"
  by (simp add: write_conn_def Let_def updateIndexMap_flags)

lemma write_conns_flags:
  "write_conns cl k conns (set_flags a c w) = set_flags a c (write_conns cl k conns w)"
  by (induction conns arbitrary: w) (simp_all add: write_conn_flags)

lemma write_cell_flags:
  "write_cell m (map_prod (set_flags a c) id st) cl = map_prod (set_flags a c) id (write_cell m st cl)"
  by (cases st) (simp add: write_cell_def Let_def write_conns_flags)

lemma write_cells_flags:
  "write_cells m cs (map_prod (set_flags a c) id st) = map_prod (set_flags a c) id (write_cells m cs st)"
  by (induction cs arbitrary: st) (simp_all add: write_cell_flags)

lemma write_wire_flags:
  "write_wire m (set_flags a c w) wr = set_flags a c (write_wire m w wr)"
  by (simp add: write_wire_def Let_def split_beta get_bits_vector_flags)

lemma write_wires_flags:
  "write_wires m wrs (set_flags a c w) = set_flags a c (write_wires m wrs w)"
  by (induction wrs arbitrary: w) (simp_all add: write_wire_flags)

lemma module_start_flags: "module_start (set_flags a c w) m = set_flags a c (module_start w m)"
  by (simp add: module_start_def set_flags_def)

lemma after_cells_flags:
  "after_cells (set_flags a c w) m = map_prod (set_flags a c) id (after_cells w m)"
proof -
  have "after_ports (set_flags a c w) m = map_prod (set_flags a c) id (after_ports w m)"
    using write_ports_flags [of m "ports m" a c "(module_start w m, 2)"]
    by (simp add: after_ports_def module_start_flags)
  then show ?thesis by (simp add: after_cells_def write_cells_flags)
qed

lemma write_module_flags:
  "write_module (set_flags a c w) m = map_sum id (set_flags a c) (write_module w m)"
  by (simp add: write_module_unfold after_cells_flags write_wires_flags)

lemma write_modules_flags:
  "write_modules (set_flags a c w) ms = map_sum id (set_flags a c) (write_modules w ms)"
proof (induction ms arbitrary: w)
  case Nil
  show ?case by simp
next
  case (Cons m ms)
  show ?case
    by (cases "write_module w m") (simp_all add: write_module_flags Cons)
qed

lemma write_design_flags:
  "write_design (set_flags a c w) d = map_sum id (set_flags a c) (write_design w d)"
proof -
  have "write_modules (set_flags a c (w\<lparr>f := f w @ [GraphOpen, Multigraph]\<rparr>)) ms =
      map_sum id (set_flags a c) (write_modules (w\<lparr>f := f w @ [GraphOpen, Multigraph]\<rparr>) ms)" for ms
    by (rule write_modules_flags)
  then show ?thesis
    by (cases "write_modules (w\<lparr>f := f w @ [GraphOpen, Multigraph]\<rparr>)
          (if use_selection w then selected_modules d else modules d)")
       (simp_all add: write_design_def Let_def)
qed

lemma GmlWriter_new_flags:
  "GmlWriter_new out sel a c = set_flags a c (GmlWriter_new out sel False False)"
  by (simp add: GmlWriter_new_def set_flags_def)

section \<open>Constants met during the traversal\<close>

lemma stable_const_open:
  "stable (\<lambda>w. sigids w (Const c) = None \<or> sigids w (Const c) = Some (const_token c))"
  by (auto simp add: stable_def assign_sigid_def split: option.split SigBit.split)

lemma assign_sigid_const:
  "sigids w (Const c) = None \<or> sigids w (Const c) = Some (const_token c) \<Longrightarrow>
     sigids (assign_sigid w (Const c)) (Const c) = Some (const_token c)"
  by (auto simp add: assign_sigid_def)

lemma sigids_at_const:
  "sigids w (Const c) = Some (const_token c) \<Longrightarrow> sigids_at w (Const c) = const_token c"
  by (simp add: sigids_at_def)

lemma get_bits_loop_const:
  "sigids w (Const c) = None \<or> sigids w (Const c) = Some (const_token c) \<Longrightarrow>
   Const c \<in> set bits \<Longrightarrow>
     sigids (fst (get_bits_loop bits w first str)) (Const c) = Some (const_token c)"
proof (induction bits arbitrary: w first str)
  case Nil
  then show ?case by simp
next
  case (Cons a bits)
  let ?w1 = "assign_sigid w a"
  let ?str = "(str @ (if first then '' '' else '', '')) @ sigids_at ?w1 a"
  have step: "get_bits_loop (a # bits) w first str = get_bits_loop bits ?w1 False ?str"
    by (simp add: Let_def)
  show ?case
  proof (cases "a = Const c")
    case True
    then have "sigids ?w1 (Const c) = Some (const_token c)"
      using Cons.prems(1) by (simp add: assign_sigid_const)
    then have "sigids (fst (get_bits_loop bits ?w1 False ?str)) (Const c) = Some (const_token c)"
      using get_bits_loop_stable [OF stable_sigid] by blast
    then show ?thesis by (simp only: step)
  next
    case False
    have "sigids ?w1 (Const c) = None \<or> sigids ?w1 (Const c) = Some (const_token c)"
      using stable_assign [OF stable_const_open Cons.prems(1)] .
    moreover have "Const c \<in> set bits" using Cons.prems(2) False by auto
    ultimately have "sigids (fst (get_bits_loop bits ?w1 False ?str)) (Const c) = Some (const_token c)"
      by (rule Cons.IH)
    then show ?thesis by (simp only: step)
  qed
qed

lemma get_bits_const:
  assumes "sigids w (Const c) = None \<or> sigids w (Const c) = Some (const_token c)"
    and "b \<in> set sig" and "sigmap w b = Const c"
  shows "sigids (fst (get_bits w sig)) (Const c) = Some (const_token c)"
proof -
  have "Const c \<in> set (map (sigmap w) sig)" using assms(2,3) by force
  from get_bits_loop_const [OF assms(1) this, of True "''[''"]
  show ?thesis by (simp add: get_bits_def split_beta)
qed

lemma get_bits_vector_const:
  assumes "sigids w (Const c) = None \<or> sigids w (Const c) = Some (const_token c)"
    and "b \<in> set sig" and "sigmap w b = Const c"
  shows "sigids (fst (get_bits_vector w sig)) (Const c) = Some (const_token c)"
  using get_bits_const [OF assms] by (simp add: get_bits_vector_def split_beta)

lemma get_bits_vector_const_nth:
  assumes "sigids w (Const c) = None \<or> sigids w (Const c) = Some (const_token c)"
    and "i < length sig" and "sigmap w (sig ! i) = Const c"
  shows "snd (get_bits_vector w sig) ! i = const_token c"
proof -
  have "sig ! i \<in> set sig" using assms(2) by simp
  from get_bits_vector_const [OF assms(1) this assms(3)]
  have "sigids_at (fst (get_bits_vector w sig)) (Const c) = const_token c"
    by (rule sigids_at_const)
  then show ?thesis using assms(2,3) by (simp add: get_bits_vector_snd)
qed

text \<open>The node ids in a vector of a connectivity map stay there.\<close>

lemma updateIndexMap_loop_keeps:
  "(x \<in> set (sourceBitToIdxMap w k) \<longrightarrow>
      x \<in> set (sourceBitToIdxMap (fst (updateIndexMap_loop bits idx us w iter)) k)) \<and>
   (x \<in> set (targetBitToIdxMap w k) \<longrightarrow>
      x \<in> set (targetBitToIdxMap (fst (updateIndexMap_loop bits idx us w iter)) k))"
proof (induction bits arbitrary: w iter)
  case Nil
  show ?case by simp
next
  case (Cons a bits)
  let ?w1 = "assign_sigid w a"
  let ?k = "sigids_at ?w1 a"
  let ?w2 = "if us
       then ?w1\<lparr>sourceBitToIdxMap := (sourceBitToIdxMap ?w1)(?k := sourceBitToIdxMap ?w1 ?k @ [idx])\<rparr>
       else ?w1\<lparr>targetBitToIdxMap := (targetBitToIdxMap ?w1)(?k := targetBitToIdxMap ?w1 ?k @ [idx])\<rparr>"
  have step: "fst (updateIndexMap_loop (a # bits) idx us w iter) =
      fst (updateIndexMap_loop bits idx us ?w2 (iter + 1))"
    by (simp add: Let_def)
  have "x \<in> set (sourceBitToIdxMap w k) \<longrightarrow> x \<in> set (sourceBitToIdxMap ?w2 k)"
    and "x \<in> set (targetBitToIdxMap w k) \<longrightarrow> x \<in> set (targetBitToIdxMap ?w2 k)"
    by simp_all
  with Cons [of ?w2 "iter + 1"] show ?case unfolding step by blast
qed

lemma updateIndexMap_loop_const:
  "sigids w (Const c) = None \<or> sigids w (Const c) = Some (const_token c) \<Longrightarrow>
   Const c \<in> set bits \<Longrightarrow>
     sigids (fst (updateIndexMap_loop bits idx us w iter)) (Const c) = Some (const_token c) \<and>
     idx \<in> set ((if us then sourceBitToIdxMap (fst (updateIndexMap_loop bits idx us w iter))
                  else targetBitToIdxMap (fst (updateIndexMap_loop bits idx us w iter)))
                 (const_token c))"
proof (induction bits arbitrary: w iter)
  case Nil
  then show ?case by simp
next
  case (Cons a bits)
  let ?w1 = "assign_sigid w a"
  let ?k = "sigids_at ?w1 a"
  let ?w2 = "if us
       then ?w1\<lparr>sourceBitToIdxMap := (sourceBitToIdxMap ?w1)(?k := sourceBitToIdxMap ?w1 ?k @ [idx])\<rparr>
       else ?w1\<lparr>targetBitToIdxMap := (targetBitToIdxMap ?w1)(?k := targetBitToIdxMap ?w1 ?k @ [idx])\<rparr>"
  let ?r = "fst (updateIndexMap_loop bits idx us ?w2 (iter + 1))"
  have step: "fst (updateIndexMap_loop (a # bits) idx us w iter) = ?r"
    by (simp add: Let_def)
  have ids2: "sigids ?w2 = sigids ?w1" by simp
  show ?case
  proof (cases "a = Const c")
    case True
    then have q1: "sigids ?w1 (Const c) = Some (const_token c)"
      using Cons.prems(1) by (simp add: assign_sigid_const)
    then have k: "?k = const_token c" using True by (simp add: sigids_at_const)
    have "sigids ?w2 (Const c) = Some (const_token c)" using q1 by (simp add: ids2)
    then have q: "sigids ?r (Const c) = Some (const_token c)"
      using updateIndexMap_loop_stable [OF stable_sigid] by blast
    have here: "idx \<in> set ((if us then sourceBitToIdxMap ?w2 else targetBitToIdxMap ?w2) (const_token c))"
      using k by simp
    have "idx \<in> set ((if us then sourceBitToIdxMap ?r else targetBitToIdxMap ?r) (const_token c))"
      using here updateIndexMap_loop_keeps [of idx ?w2 "const_token c" bits idx us "iter + 1"]
      by (cases us) simp_all
    with q show ?thesis unfolding step by blast
  next
    case False
    have "sigids ?w1 (Const c) = None \<or> sigids ?w1 (Const c) = Some (const_token c)"
      using stable_assign [OF stable_const_open Cons.prems(1)] .
    then have p2: "sigids ?w2 (Const c) = None \<or> sigids ?w2 (Const c) = Some (const_token c)"
      by (simp add: ids2)
    moreover have "Const c \<in> set bits" using Cons.prems(2) False by auto
    ultimately show ?thesis
      using Cons.IH [of ?w2 "iter + 1"] unfolding step by blast
  qed
qed

lemma updateIndexMap_const:
  assumes "sigids w (Const c) = None \<or> sigids w (Const c) = Some (const_token c)"
    and "b \<in> set sig" and "sigmap w b = Const c"
  shows "sigids (fst (updateIndexMap w sig idx us)) (Const c) = Some (const_token c) \<and>
     idx \<in> set ((if us then sourceBitToIdxMap (fst (updateIndexMap w sig idx us))
                  else targetBitToIdxMap (fst (updateIndexMap w sig idx us)))
                 (const_token c))"
proof -
  have "Const c \<in> set (map (sigmap w) sig)" using assms(2,3) by force
  from updateIndexMap_loop_const [OF assms(1) this, of idx us 0]
  show ?thesis unfolding updateIndexMap_def by blast
qed

lemma write_port_const:
  assumes "sigids (fst st) (Const c) = None \<or> sigids (fst st) (Const c) = Some (const_token c)"
    and "included (fst st) m (wire_name p)"
    and "b \<in> set (SigSpec_of_wire p)" and "sigmap (fst st) b = Const c"
  shows "sigids (fst (write_port m st p)) (Const c) = Some (const_token c)"
proof -
  obtain w k where st: "st = (w, k)" by (cases st)
  let ?w1 = "w\<lparr>f := f w @ [NodeOpen k (wire_name p), PortType (port_type p), NodeClose]\<rparr>"
  have eq: "fst (write_port m st p) = fst (updateIndexMap ?w1 (SigSpec_of_wire p) k (port_input p))"
    using assms(2) by (auto simp add: st write_port_def included_def Let_def split_beta)
  have "sigids ?w1 (Const c) = None \<or> sigids ?w1 (Const c) = Some (const_token c)"
    using assms(1) by (simp add: st)
  moreover have "sigmap ?w1 b = Const c" using assms(4) by (simp add: st)
  ultimately show ?thesis
    unfolding eq using updateIndexMap_const [OF _ assms(3)] by blast
qed

lemma write_ports_const:
  "sigids (fst st) (Const c) = None \<or> sigids (fst st) (Const c) = Some (const_token c) \<Longrightarrow>
   p \<in> set ps \<Longrightarrow> included (fst st) m (wire_name p) \<Longrightarrow>
   b \<in> set (SigSpec_of_wire p) \<Longrightarrow> sigmap (fst st) b = Const c \<Longrightarrow>
     sigids (fst (write_ports m ps st)) (Const c) = Some (const_token c)"
proof (induction ps arbitrary: st)
  case Nil
  then show ?case by simp
next
  case (Cons a ps)
  show ?case
  proof (cases "a = p")
    case True
    have "sigids (fst (write_port m st a)) (Const c) = Some (const_token c)"
      unfolding True using Cons.prems(1,3,4,5) by (rule write_port_const)
    then show ?thesis
      using write_ports_stable [OF stable_sigid] by simp
  next
    case False
    obtain w k where st: "st = (w, k)" by (cases st)
    obtain w1 k1 where wp: "write_port m (w, k) a = (w1, k1)" by (cases "write_port m (w, k) a")
    from write_port_out [OF wp] have fr: "use_selection w1 = use_selection w" "sigmap w1 = sigmap w"
      by simp_all
    have "sigids (fst (write_port m st a)) (Const c) = None \<or>
          sigids (fst (write_port m st a)) (Const c) = Some (const_token c)"
      using write_port_stable [OF stable_const_open Cons.prems(1)] .
    moreover have "p \<in> set ps" using Cons.prems(2) False by auto
    moreover have "included (fst (write_port m st a)) m (wire_name p)"
      using Cons.prems(3) fr by (simp add: st wp included_def)
    moreover have "sigmap (fst (write_port m st a)) b = Const c"
      using Cons.prems(5) fr by (simp add: st wp)
    ultimately have "sigids (fst (write_ports m ps (write_port m st a))) (Const c) = Some (const_token c)"
      using Cons.prems(4) Cons.IH [of "write_port m st a"] by blast
    then show ?thesis by simp
  qed
qed

lemma write_conn_frame [simp]: "sigmap (write_conn cl k w conn) = sigmap w"
  by (simp add: write_conn_def Let_def)

lemma write_conn_const:
  assumes "sigids w (Const c) = None \<or> sigids w (Const c) = Some (const_token c)"
    and "cell_input cl (fst conn) \<or> cell_output cl (fst conn)"
    and "b \<in> set (snd conn)" and "sigmap w b = Const c"
  shows "sigids (write_conn cl k w conn) (Const c) = Some (const_token c)"
proof (cases "cell_input cl (fst conn)")
  case True
  let ?w1 = "fst (updateIndexMap w (snd conn) k False)"
  have q: "sigids ?w1 (Const c) = Some (const_token c)"
    using updateIndexMap_const [OF assms(1,3,4)] by blast
  then have "sigids (fst (updateIndexMap ?w1 (snd conn) k True)) (Const c) = Some (const_token c)"
    using updateIndexMap_stable [OF stable_sigid] by blast
  with q True show ?thesis by (simp add: write_conn_def Let_def)
next
  case False
  with assms(2) have "cell_output cl (fst conn)" by simp
  with False show ?thesis
    using updateIndexMap_const [OF assms(1,3,4), of k True] by (simp add: write_conn_def Let_def)
qed

lemma write_conns_const:
  "sigids w (Const c) = None \<or> sigids w (Const c) = Some (const_token c) \<Longrightarrow>
   conn \<in> set conns \<Longrightarrow> cell_input cl (fst conn) \<or> cell_output cl (fst conn) \<Longrightarrow>
   b \<in> set (snd conn) \<Longrightarrow> sigmap w b = Const c \<Longrightarrow>
     sigids (write_conns cl k conns w) (Const c) = Some (const_token c)"
proof (induction conns arbitrary: w)
  case Nil
  then show ?case by simp
next
  case (Cons a conns)
  show ?case
  proof (cases "a = conn")
    case True
    have "sigids (write_conn cl k w a) (Const c) = Some (const_token c)"
      unfolding True using Cons.prems(1,3,4,5) by (rule write_conn_const)
    then show ?thesis
      using write_conns_stable [OF stable_sigid] by simp
  next
    case False
    have "sigids (write_conn cl k w a) (Const c) = None \<or>
          sigids (write_conn cl k w a) (Const c) = Some (const_token c)"
      using write_conn_stable [OF stable_const_open Cons.prems(1)] .
    moreover have "conn \<in> set conns" using Cons.prems(2) False by auto
    moreover have "sigmap (write_conn cl k w a) b = Const c" using Cons.prems(5) by simp
    ultimately have "sigids (write_conns cl k conns (write_conn cl k w a)) (Const c) = Some (const_token c)"
      using Cons.prems(3,4) Cons.IH [of "write_conn cl k w a"] by blast
    then show ?thesis by simp
  qed
qed

lemma write_cell_const:
  assumes "sigids (fst st) (Const c) = None \<or> sigids (fst st) (Const c) = Some (const_token c)"
    and "included (fst st) m (cell_name cl)"
    and "conn \<in> set (connections cl)" and "cell_input cl (fst conn) \<or> cell_output cl (fst conn)"
    and "b \<in> set (snd conn)" and "sigmap (fst st) b = Const c"
  shows "sigids (fst (write_cell m st cl)) (Const c) = Some (const_token c)"
proof -
  obtain w k where st: "st = (w, k)" by (cases st)
  let ?w1 = "w\<lparr>f := f w @ [NodeOpen k (cell_name cl), CellType (cell_type cl), NodeClose]\<rparr>"
  have eq: "fst (write_cell m st cl) = write_conns cl k (connections cl) ?w1"
    using assms(2) by (auto simp add: st write_cell_def included_def Let_def)
  have "sigids ?w1 (Const c) = None \<or> sigids ?w1 (Const c) = Some (const_token c)"
    using assms(1) by (simp add: st)
  moreover have "sigmap ?w1 b = Const c" using assms(6) by (simp add: st)
  ultimately show ?thesis
    unfolding eq using assms(3,4,5) write_conns_const [of ?w1 c conn "connections cl" cl b k] by blast
qed

lemma write_cells_const:
  "sigids (fst st) (Const c) = None \<or> sigids (fst st) (Const c) = Some (const_token c) \<Longrightarrow>
   cl \<in> set cs \<Longrightarrow> included (fst st) m (cell_name cl) \<Longrightarrow>
   conn \<in> set (connections cl) \<Longrightarrow> cell_input cl (fst conn) \<or> cell_output cl (fst conn) \<Longrightarrow>
   b \<in> set (snd conn) \<Longrightarrow> sigmap (fst st) b = Const c \<Longrightarrow>
     sigids (fst (write_cells m cs st)) (Const c) = Some (const_token c)"
proof (induction cs arbitrary: st)
  case Nil
  then show ?case by simp
next
  case (Cons a cs)
  show ?case
  proof (cases "a = cl")
    case True
    have "sigids (fst (write_cell m st a)) (Const c) = Some (const_token c)"
      unfolding True using Cons.prems(1,3,4,5,6,7) by (rule write_cell_const)
    then show ?thesis
      using write_cells_stable [OF stable_sigid] by simp
  next
    case False
    obtain w k where st: "st = (w, k)" by (cases st)
    obtain w1 k1 where wc: "write_cell m (w, k) a = (w1, k1)" by (cases "write_cell m (w, k) a")
    from write_cell_out [OF wc] have fr: "use_selection w1 = use_selection w" "sigmap w1 = sigmap w"
      by simp_all
    have "sigids (fst (write_cell m st a)) (Const c) = None \<or>
          sigids (fst (write_cell m st a)) (Const c) = Some (const_token c)"
      using write_cell_stable [OF stable_const_open Cons.prems(1)] .
    moreover have "cl \<in> set cs" using Cons.prems(2) False by auto
    moreover have "included (fst (write_cell m st a)) m (cell_name cl)"
      using Cons.prems(3) fr by (simp add: st wc included_def)
    moreover have "sigmap (fst (write_cell m st a)) b = Const c"
      using Cons.prems(7) fr by (simp add: st wc)
    ultimately have "sigids (fst (write_cells m cs (write_cell m st a))) (Const c) = Some (const_token c)"
      using Cons.prems(4,5,6) Cons.IH [of "write_cell m st a"] by blast
    then show ?thesis by simp
  qed
qed

lemma write_wire_const:
  assumes "sigids w (Const c) = None \<or> sigids w (Const c) = Some (const_token c)"
    and "included w m (wire_name wr)"
    and "b \<in> set (SigSpec_of_wire wr)" and "sigmap w b = Const c"
  shows "sigids (write_wire m w wr) (Const c) = Some (const_token c)"
proof -
  have "sigids (write_wire m w wr) = sigids (fst (get_bits_vector w (SigSpec_of_wire wr)))"
    using assms(2) by (auto simp add: write_wire_def included_def Let_def split_beta)
  then show ?thesis using get_bits_vector_const [OF assms(1,3,4)] by simp
qed

lemma write_wires_const:
  "sigids w (Const c) = None \<or> sigids w (Const c) = Some (const_token c) \<Longrightarrow>
   wr \<in> set wrs \<Longrightarrow> included w m (wire_name wr) \<Longrightarrow>
   b \<in> set (SigSpec_of_wire wr) \<Longrightarrow> sigmap w b = Const c \<Longrightarrow>
     sigids (write_wires m wrs w) (Const c) = Some (const_token c)"
proof (induction wrs arbitrary: w)
  case Nil
  then show ?case by simp
next
  case (Cons a wrs)
  show ?case
  proof (cases "a = wr")
    case True
    have "sigids (write_wire m w a) (Const c) = Some (const_token c)"
      unfolding True using Cons.prems(1,3,4,5) by (rule write_wire_const)
    then show ?thesis
      using write_wires_sigid by simp
  next
    case False
    have "sigids (write_wire m w a) (Const c) = None \<or>
          sigids (write_wire m w a) (Const c) = Some (const_token c)"
      using write_wire_stable [OF stable_const_open Cons.prems(1)] .
    moreover have "wr \<in> set wrs" using Cons.prems(2) False by auto
    moreover have "included (write_wire m w a) m (wire_name wr)"
      using Cons.prems(3) by (simp add: included_def)
    moreover have "sigmap (write_wire m w a) b = Const c" using Cons.prems(5) by simp
    ultimately have "sigids (write_wires m wrs (write_wire m w a)) (Const c) = Some (const_token c)"
      using Cons.prems(4) Cons.IH [of "write_wire m w a"] by blast
    then show ?thesis by simp
  qed
qed

lemma after_ports_frame:
  "use_selection (fst (after_ports w0 m)) = use_selection w0 \<and>
   sigmap (fst (after_ports w0 m)) = sigmap_of m"
proof -
  obtain wp kp where ap: "write_ports m (ports m) (module_start w0 m, 2) = (wp, kp)"
    by (cases "write_ports m (ports m) (module_start w0 m, 2)")
  from write_ports_out [OF ap] show ?thesis by (simp add: after_ports_def ap)
qed

lemma after_cells_frame:
  "use_selection (fst (after_cells w0 m)) = use_selection w0 \<and>
   sigmap (fst (after_cells w0 m)) = sigmap_of m"
proof -
  obtain wp kp where ap: "after_ports w0 m = (wp, kp)" by (cases "after_ports w0 m")
  obtain wc kc where ac: "write_cells m (cells m) (wp, kp) = (wc, kc)"
    by (cases "write_cells m (cells m) (wp, kp)")
  from write_cells_out [OF ac] after_ports_frame [of w0 m]
  show ?thesis by (simp add: after_cells_def ap ac)
qed

lemma module_start_const_open:
  "sigids (module_start w0 m) (Const c) = None \<or>
   sigids (module_start w0 m) (Const c) = Some (const_token c)"
  by (simp add: module_start_def)

lemma after_ports_const_open:
  "sigids (fst (after_ports w0 m)) (Const c) = None \<or>
   sigids (fst (after_ports w0 m)) (Const c) = Some (const_token c)"
  unfolding after_ports_def
  using write_ports_stable [OF stable_const_open [of c], of "(module_start w0 m, 2)"]
  by (simp add: module_start_const_open)

lemma after_cells_const_open:
  "sigids (fst (after_cells w0 m)) (Const c) = None \<or>
   sigids (fst (after_cells w0 m)) (Const c) = Some (const_token c)"
  unfolding after_cells_def
  using write_cells_stable [OF stable_const_open [of c], of "after_ports w0 m"]
  by (simp add: after_ports_const_open)

lemma port_const_met:
  assumes "p \<in> set (ports m)" and "included w0 m (wire_name p)"
    and "b \<in> set (SigSpec_of_wire p)" and "sigmap_of m b = Const c"
  shows "sigids (fst (after_ports w0 m)) (Const c) = Some (const_token c)"
  unfolding after_ports_def
  using assms module_start_const_open [of w0 m c]
  by (intro write_ports_const [where p = p and b = b]) (simp_all add: included_def)

lemma cell_const_met:
  assumes "cl \<in> set (cells m)" and "included w0 m (cell_name cl)"
    and "conn \<in> set (connections cl)" and "cell_input cl (fst conn) \<or> cell_output cl (fst conn)"
    and "b \<in> set (snd conn)" and "sigmap_of m b = Const c"
  shows "sigids (fst (after_cells w0 m)) (Const c) = Some (const_token c)"
  unfolding after_cells_def
  using assms after_ports_const_open [of w0 m c] after_ports_frame [of w0 m]
  by (intro write_cells_const [where cl = cl and conn = conn and b = b]) (simp_all add: included_def)

lemma wire_const_met:
  assumes "wr \<in> set (wires m)" and "included w0 m (wire_name wr)"
    and "b \<in> set (SigSpec_of_wire wr)" and "sigmap_of m b = Const c"
  shows "sigids (after_wires w0 m) (Const c) = Some (const_token c)"
  unfolding after_wires_def
  using assms after_cells_const_open [of w0 m c] after_cells_frame [of w0 m]
  by (intro write_wires_const [where wr = wr and b = b]) (simp_all add: included_def)

lemma after_cells_keeps_const:
  "sigids (fst (after_ports w0 m)) (Const c) = Some (const_token c) \<Longrightarrow>
     sigids (fst (after_cells w0 m)) (Const c) = Some (const_token c)"
  unfolding after_cells_def using write_cells_stable [OF stable_sigid] by blast

lemma after_wires_keeps_const:
  "sigids (fst (after_cells w0 m)) (Const c) = Some (const_token c) \<Longrightarrow>
     sigids (after_wires w0 m) (Const c) = Some (const_token c)"
  unfolding after_wires_def using write_wires_sigid by blast

lemma after_wires_sigmap: "sigmap (after_wires w0 m) = sigmap_of m"
  using after_cells_frame [of w0 m] by (simp add: after_wires_def)

section \<open>The claims\<close>

text \<open>
  Claim C1 fails on the code: \<^verbatim>\<open>write_module\<close> clears \<^verbatim>\<open>sigids\<close> and resets
  \<^verbatim>\<open>sigidcounter\<close>, but \<^verbatim>\<open>sourceBitToIdxMap\<close> and \<^verbatim>\<open>targetBitToIdxMap\<close> keep
  the entries of the modules written before. Module \<open>B\<close> on its own gets one node and
  no edge; written after module \<open>A\<close> it gets the edge from node 2 to node 3, a node that
  \<open>B\<close> does not have.
\<close>

theorem connectivity_maps_carry_over:
  "module_lines writer0 mod_B = [NodeOpen 2 ''b'', PortType ''input'', NodeClose] \<and>
   write_module writer0 mod_A = Inr (after_wires writer0 mod_A) \<and>
   module_lines (after_wires writer0 mod_A) mod_B =
     [NodeOpen 2 ''b'', PortType ''input'', NodeClose, Edge 2 3] \<and>
   sourceBitToIdxMap (after_wires writer0 mod_A) ''2'' = [2] \<and>
   targetBitToIdxMap (after_wires writer0 mod_A) ''2'' = [3] \<and>
   stream_of (write_design writer0 design_AB) =
     [GraphOpen, Multigraph,
      NodeOpen 2 ''a'', PortType ''input'', NodeClose,
      NodeOpen 3 ''c'', CellType ''$not'', NodeClose, Edge 2 3,
      NodeOpen 2 ''b'', PortType ''input'', NodeClose, Edge 2 3,
      GraphClose]"
proof -
  have "write_module writer0 mod_A = Inr (after_wires writer0 mod_A)"
    by (rule write_module_after_wires) (simp add: mod_A_def)
  moreover have "module_lines writer0 mod_B = [NodeOpen 2 ''b'', PortType ''input'', NodeClose]"
    by code_simp
  moreover have "module_lines (after_wires writer0 mod_A) mod_B =
     [NodeOpen 2 ''b'', PortType ''input'', NodeClose, Edge 2 3]"
    by code_simp
  moreover have "sourceBitToIdxMap (after_wires writer0 mod_A) ''2'' = [2]" by code_simp
  moreover have "targetBitToIdxMap (after_wires writer0 mod_A) ''2'' = [3]" by code_simp
  moreover have "stream_of (write_design writer0 design_AB) =
     [GraphOpen, Multigraph,
      NodeOpen 2 ''a'', PortType ''input'', NodeClose,
      NodeOpen 3 ''c'', CellType ''$not'', NodeClose, Edge 2 3,
      NodeOpen 2 ''b'', PortType ''input'', NodeClose, Edge 2 3,
      GraphClose]"
    by code_simp
  ultimately show ?thesis by (intro conjI)
qed

text \<open>
  Claim C2, as amended. For a module without processes in which every selected port has
  at least one bit, the node records that \<^verbatim>\<open>write_module\<close> writes are one per selected
  port, in the order of the ports, followed by one per selected cell, in the order of
  the cells. The ids come from one counter that starts at 2: a port takes the current
  value and moves the counter on by the number of its bits, a cell takes the current
  value and moves the counter on by one. The ids are therefore strictly increasing, but
  they are consecutive only after a one-bit port or a cell.
\<close>

theorem node_ids_advance_by_width:
  assumes "write_module w0 m = Inr w1"
    and "\<forall>p\<in>set (ports m). included w0 m (wire_name p) \<longrightarrow> 0 < width p"
  shows "node_recs (module_lines w0 m) =
           port_nodes 2 (filter (\<lambda>p. included w0 m (wire_name p)) (ports m))
           @ cell_nodes (2 + total_width (filter (\<lambda>p. included w0 m (wire_name p)) (ports m)))
               (filter (\<lambda>c. included w0 m (cell_name c)) (cells m))
         \<and> sorted_wrt (<) (map fst (node_recs (module_lines w0 m)))"
proof -
  let ?ps = "filter (\<lambda>p. included w0 m (wire_name p)) (ports m)"
  let ?cs = "filter (\<lambda>c. included w0 m (cell_name c)) (cells m)"
  from write_module_lines [OF assms(1)] obtain ls1 ls2 es where
    l: "module_lines w0 m = ls1 @ ls2 @ map (\<lambda>(s, t). Edge s t) es"
       "node_recs ls1 = port_nodes 2 ?ps"
       "node_recs ls2 = cell_nodes (2 + total_width ?ps) ?cs"
    by blast
  have eq: "node_recs (module_lines w0 m) = port_nodes 2 ?ps @ cell_nodes (2 + total_width ?ps) ?cs"
    by (simp add: l node_recs_append)
  have "\<forall>q\<in>set ?ps. 0 < width q" using assms(2) by simp
  from port_nodes_bounds [OF this, of 2] cell_nodes_bounds [of "2 + total_width ?ps" ?cs]
  have "sorted_wrt (<) (map fst (port_nodes 2 ?ps @ cell_nodes (2 + total_width ?ps) ?cs))"
    by (fastforce simp add: sorted_wrt_append)
  with eq show ?thesis by simp
qed

theorem node_ids_advance_by_width_witness:
  "write_module writer0 mod_and2 = Inr (after_wires writer0 mod_and2) \<and>
   ports mod_and2 = [wire_x, wire_y, wire_out] \<and>
   0 < width wire_x \<and> 0 < width wire_y \<and> 0 < width wire_out \<and>
   node_recs (module_lines writer0 mod_and2) = [(2, ''x''), (3, ''y''), (4, ''out''), (6, ''g'')] \<and>
   sorted_wrt (<) (map fst (node_recs (module_lines writer0 mod_and2)))"
proof -
  have h1: "write_module writer0 mod_and2 = Inr (after_wires writer0 mod_and2)"
    by (rule write_module_after_wires) (simp add: mod_and2_def)
  have p: "ports mod_and2 = [wire_x, wire_y, wire_out]"
    by (simp add: mod_and2_def)
  have w: "0 < width wire_x" "0 < width wire_y" "0 < width wire_out"
    by (simp_all add: wire_x_def wire_y_def wire_out_def)
  have h2: "\<forall>p\<in>set (ports mod_and2). included writer0 mod_and2 (wire_name p) \<longrightarrow> 0 < width p"
    using w by (simp add: p)
  have v: "node_recs (module_lines writer0 mod_and2) = [(2, ''x''), (3, ''y''), (4, ''out''), (6, ''g'')]"
    by code_simp
  have c: "sorted_wrt (<) (map fst (node_recs (module_lines writer0 mod_and2)))"
    using node_ids_advance_by_width [OF h1 h2] by (rule conjunct2)
  show ?thesis using h1 p w v c by (intro conjI)
qed

text \<open>
  Claim C2 as stated, with consecutive ids, fails on a module with a two-bit port followed
  by a one-bit port: the ids are 2 and 4.
\<close>

theorem sequential_node_ids_counterexample:
  "map fst (node_recs (module_lines writer0 mod_wide)) = [2, 4] \<and>
   \<not> sequential_from 2 (map fst (node_recs (module_lines writer0 mod_wide)))"
  by code_simp

text \<open>
  Claim C3 fails on the code: a port moves \<^verbatim>\<open>idCounter\<close> on by the number of its
  bits, so a port of width 0 leaves it where it is and the next node gets the same id.
  In module \<open>zero\<close> the port \<open>z\<close> and the cell \<open>c\<close> both get the id 2.
\<close>

theorem zero_width_port_repeats_id:
  "node_recs (module_lines writer0 mod_zero) = [(2, ''z''), (2, ''c'')] \<and>
   \<not> distinct (map fst (node_recs (module_lines writer0 mod_zero)))"
  by code_simp

text \<open>
  Claim C4. The edges written for a selected wire are \<open>wire_edges\<close> of the two
  connectivity maps and the identifiers of the bits of the wire. For a candidate pair
  \<open>c\<close> at any position of the candidate list of the wire, with the candidates \<open>pre\<close>
  before it and \<open>post\<close> after it: the edges written are those written for \<open>pre\<close>, then
  \<open>c\<close> unless an edge was written before and the last one written is \<open>c\<close>, then those
  written for \<open>post\<close> with \<open>c\<close> in the slot. In particular sources \<open>[A, B]\<close> and
  targets \<open>[X, X]\<close> of one bit give the edges \<open>(A, X)\<close>, \<open>(B, X)\<close>; a pair that comes
  back after a different pair is written again, within one bit and on a later bit.
\<close>

theorem single_slot_suppression:
  "(included w m (wire_name wr) \<longrightarrow>
      f (write_wire m w wr) =
        f w @ map (\<lambda>(s, t). Edge s t)
                (wire_edges (sourceBitToIdxMap w) (targetBitToIdxMap w)
                   (snd (get_bits_vector w (SigSpec_of_wire wr))))) \<and>
   (candidates src tgt bits = pre @ c # post \<and> c \<noteq> (0, 0) \<longrightarrow>
      wire_edges src tgt bits =
        run_edges (0, 0) pre
        @ (if run_edges (0, 0) pre \<noteq> [] \<and> last (run_edges (0, 0) pre) = c then [] else [c])
        @ run_edges c post) \<and>
   (src b = [A, B] \<and> tgt b = [X, X] \<and> A \<noteq> B \<and> 2 \<le> A \<longrightarrow>
      wire_edges src tgt [b] = [(A, X), (B, X)]) \<and>
   (src b = [A, B, A] \<and> tgt b = [X] \<and> A \<noteq> B \<and> 2 \<le> A \<longrightarrow>
      wire_edges src tgt [b] = [(A, X), (B, X), (A, X)]) \<and>
   (src b = [A] \<and> tgt b = [X] \<and> src b' = [B] \<and> tgt b' = [X] \<and> A \<noteq> B \<and> 2 \<le> A \<longrightarrow>
      wire_edges src tgt [b, b', b] = [(A, X), (B, X), (A, X)])"
proof (intro conjI impI)
  assume "included w m (wire_name wr)"
  then show "f (write_wire m w wr) =
        f w @ map (\<lambda>(s, t). Edge s t)
                (wire_edges (sourceBitToIdxMap w) (targetBitToIdxMap w)
                   (snd (get_bits_vector w (SigSpec_of_wire wr))))"
    by (simp add: write_wire_out)
next
  assume h: "candidates src tgt bits = pre @ c # post \<and> c \<noteq> (0, 0)"
  let ?E = "run_edges (0, 0) pre"
  have slot: "last ((0, 0) # ?E) = c \<longleftrightarrow> ?E \<noteq> [] \<and> last ?E = c"
    using h by auto
  have "wire_edges src tgt bits = ?E @ run_edges (last ((0, 0) # ?E)) (c # post)"
    using h by (simp add: wire_edges_run run_edges_append)
  also have "run_edges (last ((0, 0) # ?E)) (c # post) =
      (if ?E \<noteq> [] \<and> last ?E = c then [] else [c]) @ run_edges c post"
    using slot by (simp add: run_edges_Cons) metis
  finally show "wire_edges src tgt bits =
        ?E @ (if ?E \<noteq> [] \<and> last ?E = c then [] else [c]) @ run_edges c post" .
next
  assume "src b = [A, B] \<and> tgt b = [X, X] \<and> A \<noteq> B \<and> 2 \<le> A"
  then show "wire_edges src tgt [b] = [(A, X), (B, X)]"
    by (simp add: wire_edges_run candidates_def run_edges_Cons run_edges_Nil)
next
  assume "src b = [A, B, A] \<and> tgt b = [X] \<and> A \<noteq> B \<and> 2 \<le> A"
  then show "wire_edges src tgt [b] = [(A, X), (B, X), (A, X)]"
    by (simp add: wire_edges_run candidates_def run_edges_Cons run_edges_Nil)
next
  assume "src b = [A] \<and> tgt b = [X] \<and> src b' = [B] \<and> tgt b' = [X] \<and> A \<noteq> B \<and> 2 \<le> A"
  then show "wire_edges src tgt [b, b', b] = [(A, X), (B, X), (A, X)]"
    by (simp add: wire_edges_run candidates_def run_edges_Cons run_edges_Nil)
qed

theorem single_slot_suppression_witness:
  "included (fst (after_cells writer0 mod_fan)) mod_fan (wire_name wire_n) \<and>
   sourceBitToIdxMap (fst (after_cells writer0 mod_fan)) ''2'' = [2, 3] \<and>
   targetBitToIdxMap (fst (after_cells writer0 mod_fan)) ''2'' = [4, 4] \<and>
   snd (get_bits_vector (fst (after_cells writer0 mod_fan)) (SigSpec_of_wire wire_n)) = [''2''] \<and>
   candidates (sourceBitToIdxMap (fst (after_cells writer0 mod_fan)))
     (targetBitToIdxMap (fst (after_cells writer0 mod_fan))) [''2'']
     = [(2, 4)] @ (2, 4) # [(3, 4), (3, 4)] \<and>
   run_edges (0, 0) [(2, 4)] = [(2, 4)] \<and>
   wire_edges (sourceBitToIdxMap (fst (after_cells writer0 mod_fan)))
     (targetBitToIdxMap (fst (after_cells writer0 mod_fan))) [''2'']
     = [(2, 4)] @ [] @ run_edges (2, 4) [(3, 4), (3, 4)] \<and>
   wire_edges (sourceBitToIdxMap (fst (after_cells writer0 mod_fan)))
     (targetBitToIdxMap (fst (after_cells writer0 mod_fan))) [''2''] = [(2, 4), (3, 4)] \<and>
   f (write_wire mod_fan (fst (after_cells writer0 mod_fan)) wire_n) =
     f (fst (after_cells writer0 mod_fan)) @ [Edge 2 4, Edge 3 4]"
proof -
  let ?w = "fst (after_cells writer0 mod_fan)"
  let ?src = "sourceBitToIdxMap ?w"
  let ?tgt = "targetBitToIdxMap ?w"
  note t = single_slot_suppression [of ?w mod_fan wire_n ?src ?tgt "[''2'']" "[(2, 4)]" "(2, 4)"
      "[(3, 4), (3, 4)]" "''2''" 2 3 4]
  have inc: "included ?w mod_fan (wire_name wire_n)"
    by (simp add: included_def mod_fan_def)
  have s: "?src ''2'' = [2, 3]" by code_simp
  have g: "?tgt ''2'' = [4, 4]" by code_simp
  have bits: "snd (get_bits_vector ?w (SigSpec_of_wire wire_n)) = [''2'']" by code_simp
  have cands: "candidates ?src ?tgt [''2''] = [(2, 4)] @ (2, 4) # [(3, 4), (3, 4)]"
    by (simp add: candidates_def s g)
  have pre: "run_edges (0, 0) [(2, 4)] = [(2, 4)]"
    by (simp add: run_edges_Cons run_edges_Nil)
  have e1: "wire_edges ?src ?tgt [''2''] = [(2, 4)] @ [] @ run_edges (2, 4) [(3, 4), (3, 4)]"
    using t cands pre by simp
  have e2: "wire_edges ?src ?tgt [''2''] = [(2, 4), (3, 4)]"
    using t s g by simp
  have e3: "f (write_wire mod_fan ?w wire_n) = f ?w @ [Edge 2 4, Edge 3 4]"
    using t inc bits e2 by simp
  show ?thesis using inc s g bits cands pre e1 e2 e3 by (intro conjI)
qed

text \<open>
  Claim C5. A module that contains processes makes \<^verbatim>\<open>write_module\<close> end in the
  fatal error of \<^verbatim>\<open>log_error\<close> with the stream exactly as it was, so that no node
  or edge record of that module is written; for a module without processes
  \<^verbatim>\<open>write_module\<close> returns a writer, that is, node and edge emission does not fail.
\<close>

theorem processes_fatal:
  "(has_processes m \<longrightarrow>
      write_module w m = Inl (Module_contains_processes (mod_name m), f w) \<and> module_lines w m = [])
   \<and> (\<not> has_processes m \<longrightarrow> (\<exists>w1. write_module w m = Inr w1))"
  by (simp add: write_module_unfold module_lines_def)

theorem processes_fatal_witness:
  "has_processes mod_P \<and>
   write_module writer0 mod_P = Inl (Module_contains_processes ''P'', []) \<and>
   module_lines writer0 mod_P = [] \<and>
   \<not> has_processes mod_B \<and> (\<exists>w1. write_module writer0 mod_B = Inr w1)"
  using processes_fatal [of mod_P writer0] processes_fatal [of mod_B writer0]
  by (simp add: mod_P_def mod_B_def writer0_def GmlWriter_new_def)

text \<open>
  Claim C6. For every stream, selection flag and design, \<^verbatim>\<open>write_design\<close> on writers
  constructed with any two settings of \<^verbatim>\<open>aig_mode\<close> and \<^verbatim>\<open>compat_int_mode\<close> ends the
  same way: with the same fatal error and the same stream written up to it, or without
  error and with the same stream. The flags are stored and never read.
\<close>

theorem flags_do_not_matter:
  "map_sum id f (write_design (GmlWriter_new out sel a1 c1) d) =
   map_sum id f (write_design (GmlWriter_new out sel a2 c2) d)"
proof -
  have n: "map_sum id f (write_design (GmlWriter_new out sel a c) d) =
        map_sum id f (write_design (GmlWriter_new out sel False False) d)" for a c
    by (cases "write_design (GmlWriter_new out sel False False) d")
       (simp_all add: GmlWriter_new_flags [of out sel a c] write_design_flags)
  show ?thesis by (simp only: n [of a1 c1] n [of a2 c2])
qed

text \<open>
  Claim C7. The tokens of the constants \<^verbatim>\<open>S0\<close>, \<^verbatim>\<open>S1\<close>, \<^verbatim>\<open>Sz\<close> and
  \<^verbatim>\<open>Sx\<close> are \<^verbatim>\<open>"0"\<close>, \<^verbatim>\<open>"1"\<close>, \<^verbatim>\<open>"z"\<close> and \<^verbatim>\<open>"x"\<close>, quotes included, and the
  token of a constant is never the decimal string of an integer. A constant bit met for
  the first time is given its token and leaves the counter alone, whatever the table and
  the counter hold at that moment; and after the ports, after the cells and at the end
  of \<^verbatim>\<open>write_module\<close> every constant bit in the table has its token.

  The traversal gives every constant it meets its token. When the table has no entry
  for a constant or has its token, and a bit of a signal is that constant after
  canonicalisation, then \<^verbatim>\<open>get_bits\<close>, \<^verbatim>\<open>get_bits_vector\<close> and
  \<^verbatim>\<open>updateIndexMap\<close> each leave the token in the table, \<^verbatim>\<open>updateIndexMap\<close> files the
  node id under the token, and \<^verbatim>\<open>get_bits_vector\<close> returns the token at the position
  of the bit. In a whole \<^verbatim>\<open>write_module\<close> the table is cleared first, so a constant
  that is a bit of a selected port, of a connection on an input or output pin of a
  selected cell, or of a selected wire has its token at the end, wherever in the
  traversal it is met first, and the identifier read for that bit of the wire is the
  token.
\<close>

theorem constant_tokens_fixed:
  "const_token S0 = [CHR 0x22, CHR ''0'', CHR 0x22] \<and>
   const_token S1 = [CHR 0x22, CHR ''1'', CHR 0x22] \<and>
   const_token Sz = [CHR 0x22, CHR ''z'', CHR 0x22] \<and>
   const_token Sx = [CHR 0x22, CHR ''x'', CHR 0x22] \<and>
   (\<forall>k. const_token c \<noteq> stringf_d k) \<and>
   (sigids w (Const c) = None \<longrightarrow>
      sigids (assign_sigid w (Const c)) (Const c) = Some (const_token c) \<and>
      sigidcounter (assign_sigid w (Const c)) = sigidcounter w) \<and>
   (sigids (fst (after_ports w0 m)) (Const c) = Some s \<longrightarrow> s = const_token c) \<and>
   (sigids (fst (after_cells w0 m)) (Const c) = Some s \<longrightarrow> s = const_token c) \<and>
   (write_module w0 m = Inr w1 \<longrightarrow> sigids w1 (Const c) = Some s \<longrightarrow> s = const_token c) \<and>
   ((sigids w (Const c) = None \<or> sigids w (Const c) = Some (const_token c)) \<and>
    b \<in> set sig \<and> sigmap w b = Const c \<longrightarrow>
      sigids (fst (get_bits w sig)) (Const c) = Some (const_token c) \<and>
      sigids (fst (get_bits_vector w sig)) (Const c) = Some (const_token c) \<and>
      sigids (fst (updateIndexMap w sig idx us)) (Const c) = Some (const_token c) \<and>
      idx \<in> set ((if us then sourceBitToIdxMap (fst (updateIndexMap w sig idx us))
                   else targetBitToIdxMap (fst (updateIndexMap w sig idx us)))
                  (const_token c))) \<and>
   ((sigids w (Const c) = None \<or> sigids w (Const c) = Some (const_token c)) \<and>
    i < length sig \<and> sigmap w (sig ! i) = Const c \<longrightarrow>
      snd (get_bits_vector w sig) ! i = const_token c) \<and>
   (write_module w0 m = Inr w1 \<and> p \<in> set (ports m) \<and> included w0 m (wire_name p) \<and>
    b \<in> set (SigSpec_of_wire p) \<and> sigmap_of m b = Const c \<longrightarrow>
      sigids w1 (Const c) = Some (const_token c)) \<and>
   (write_module w0 m = Inr w1 \<and> cl \<in> set (cells m) \<and> included w0 m (cell_name cl) \<and>
    conn \<in> set (connections cl) \<and> (cell_input cl (fst conn) \<or> cell_output cl (fst conn)) \<and>
    b \<in> set (snd conn) \<and> sigmap_of m b = Const c \<longrightarrow>
      sigids w1 (Const c) = Some (const_token c)) \<and>
   (write_module w0 m = Inr w1 \<and> wr \<in> set (wires m) \<and> included w0 m (wire_name wr) \<and>
    j < width wr \<and> sigmap_of m (WireBit (wire_name wr) j) = Const c \<longrightarrow>
      sigids w1 (Const c) = Some (const_token c) \<and> wire_bit_ids w1 wr ! j = const_token c)"
proof (intro conjI allI impI)
  fix k show "const_token c \<noteq> stringf_d k" by (rule const_token_not_stringf_d)
next
  assume "sigids (fst (after_ports w0 m)) (Const c) = Some s"
  then show "s = const_token c"
    using after_ports_sigids_ok [of w0 m] unfolding sigids_ok_def by blast
next
  assume "sigids (fst (after_cells w0 m)) (Const c) = Some s"
  then show "s = const_token c"
    using after_cells_sigids_ok [of w0 m] unfolding sigids_ok_def by blast
next
  assume "write_module w0 m = Inr w1" and "sigids w1 (Const c) = Some s"
  then show "s = const_token c"
    using write_module_sigids_ok [of w0 m w1] unfolding sigids_ok_def by blast
next
  assume h: "(sigids w (Const c) = None \<or> sigids w (Const c) = Some (const_token c)) \<and>
    b \<in> set sig \<and> sigmap w b = Const c"
  then have o: "sigids w (Const c) = None \<or> sigids w (Const c) = Some (const_token c)"
    and b: "b \<in> set sig" "sigmap w b = Const c" by simp_all
  show "sigids (fst (get_bits w sig)) (Const c) = Some (const_token c)"
    using o b by (rule get_bits_const)
  show "sigids (fst (get_bits_vector w sig)) (Const c) = Some (const_token c)"
    using o b by (rule get_bits_vector_const)
  show "sigids (fst (updateIndexMap w sig idx us)) (Const c) = Some (const_token c)"
    using updateIndexMap_const [OF o b] by blast
  show "idx \<in> set ((if us then sourceBitToIdxMap (fst (updateIndexMap w sig idx us))
                   else targetBitToIdxMap (fst (updateIndexMap w sig idx us)))
                  (const_token c))"
    using updateIndexMap_const [OF o b] by blast
next
  assume "(sigids w (Const c) = None \<or> sigids w (Const c) = Some (const_token c)) \<and>
    i < length sig \<and> sigmap w (sig ! i) = Const c"
  then show "snd (get_bits_vector w sig) ! i = const_token c"
    using get_bits_vector_const_nth [of w c i sig] by blast
next
  assume h: "write_module w0 m = Inr w1 \<and> p \<in> set (ports m) \<and> included w0 m (wire_name p) \<and>
    b \<in> set (SigSpec_of_wire p) \<and> sigmap_of m b = Const c"
  then have w1: "w1 = after_wires w0 m" by (simp add: write_module_Inr after_wires_def)
  from h have "sigids (fst (after_ports w0 m)) (Const c) = Some (const_token c)"
    using port_const_met [of p m w0 b c] by blast
  then show "sigids w1 (Const c) = Some (const_token c)"
    unfolding w1 by (intro after_wires_keeps_const after_cells_keeps_const)
next
  assume h: "write_module w0 m = Inr w1 \<and> cl \<in> set (cells m) \<and> included w0 m (cell_name cl) \<and>
    conn \<in> set (connections cl) \<and> (cell_input cl (fst conn) \<or> cell_output cl (fst conn)) \<and>
    b \<in> set (snd conn) \<and> sigmap_of m b = Const c"
  then have w1: "w1 = after_wires w0 m" by (simp add: write_module_Inr after_wires_def)
  from h have "sigids (fst (after_cells w0 m)) (Const c) = Some (const_token c)"
    using cell_const_met [of cl m w0 conn b c] by blast
  then show "sigids w1 (Const c) = Some (const_token c)"
    unfolding w1 by (rule after_wires_keeps_const)
next
  assume h: "write_module w0 m = Inr w1 \<and> wr \<in> set (wires m) \<and> included w0 m (wire_name wr) \<and>
    j < width wr \<and> sigmap_of m (WireBit (wire_name wr) j) = Const c"
  then have w1: "w1 = after_wires w0 m" by (simp add: write_module_Inr after_wires_def)
  from h have j: "j < width wr" and sm: "sigmap_of m (WireBit (wire_name wr) j) = Const c"
    by simp_all
  have mem: "WireBit (wire_name wr) j \<in> set (SigSpec_of_wire wr)"
    using j by (simp add: SigSpec_of_wire_def)
  from h mem show q: "sigids w1 (Const c) = Some (const_token c)"
    unfolding w1 using wire_const_met [of wr m w0 "WireBit (wire_name wr) j" c] by blast
  have "wire_bit_ids w1 wr ! j = sigids_at w1 (sigmap w1 (WireBit (wire_name wr) j))"
    using j by (simp add: wire_bit_ids_def SigSpec_of_wire_def)
  also have "\<dots> = sigids_at w1 (Const c)"
    using sm by (simp add: w1 after_wires_sigmap)
  also have "\<dots> = const_token c" using q by (rule sigids_at_const)
  finally show "wire_bit_ids w1 wr ! j = const_token c" .
qed (simp_all add: const_token_def assign_sigid_def)

theorem constant_tokens_fixed_witness:
  "sigids writer0 (Const S0) = None \<and>
   sigids (assign_sigid writer0 (Const S0)) (Const S0) = Some (const_token S0) \<and>
   sigids (fst (after_ports writer0 mod_and2)) (Const S0) = Some (const_token S0) \<and>
   sigids (fst (after_cells writer0 mod_and2)) (Const S0) = Some (const_token S0) \<and>
   write_module writer0 mod_and2 = Inr (after_wires writer0 mod_and2) \<and>
   sigids (after_wires writer0 mod_and2) (Const S0) = Some [CHR 0x22, CHR ''0'', CHR 0x22] \<and>
   sigids (after_wires writer0 mod_and2) (WireBit ''out'' 0) = Some ''4'' \<and>
   Const S0 \<in> set [WireBit ''x'' 0, Const S0] \<and> sigmap writer0 (Const S0) = Const S0 \<and>
   sigids (fst (get_bits writer0 [WireBit ''x'' 0, Const S0])) (Const S0) = Some (const_token S0) \<and>
   sigids (fst (updateIndexMap writer0 [WireBit ''x'' 0, Const S0] 7 False)) (Const S0)
     = Some (const_token S0) \<and>
   7 \<in> set (targetBitToIdxMap (fst (updateIndexMap writer0 [WireBit ''x'' 0, Const S0] 7 False))
              (const_token S0)) \<and>
   snd (get_bits_vector writer0 [WireBit ''x'' 0, Const S0]) ! 1 = const_token S0 \<and>
   wire_out \<in> set (ports mod_and2) \<and> sigmap_of mod_and2 (WireBit ''out'' 1) = Const S0 \<and>
   write_module writer0 mod_tie = Inr (after_wires writer0 mod_tie) \<and>
   cell_t \<in> set (cells mod_tie) \<and> (''B'', [Const S1]) \<in> set (connections cell_t) \<and>
   sigids (after_wires writer0 mod_tie) (Const S1) = Some (const_token S1) \<and>
   wire_h \<in> set (wires mod_tie) \<and> sigmap_of mod_tie (WireBit ''h'' 0) = Const Sz \<and>
   sigids (fst (after_cells writer0 mod_tie)) (Const Sz) = None \<and>
   sigids (after_wires writer0 mod_tie) (Const Sz) = Some (const_token Sz) \<and>
   wire_bit_ids (after_wires writer0 mod_tie) wire_h ! 0 = const_token Sz \<and>
   const_token Sz = [CHR 0x22, CHR ''z'', CHR 0x22]"
proof -
  let ?sig = "[WireBit ''x'' 0, Const S0]"
  have h0: "sigids writer0 (Const S0) = None"
    by (simp add: writer0_def GmlWriter_new_def)
  have sm0: "sigmap writer0 (Const S0) = Const S0"
    by (simp add: writer0_def GmlWriter_new_def)
  have h1: "write_module writer0 mod_and2 = Inr (after_wires writer0 mod_and2)"
    by (rule write_module_after_wires) (simp add: mod_and2_def)
  have h2: "write_module writer0 mod_tie = Inr (after_wires writer0 mod_tie)"
    by (rule write_module_after_wires) (simp add: mod_tie_def)
  have v1: "sigids (fst (after_ports writer0 mod_and2)) (Const S0) = Some [CHR 0x22, CHR ''0'', CHR 0x22]"
    by code_simp
  have v2: "sigids (fst (after_cells writer0 mod_and2)) (Const S0) = Some [CHR 0x22, CHR ''0'', CHR 0x22]"
    by code_simp
  have v4: "sigids (after_wires writer0 mod_and2) (WireBit ''out'' 0) = Some ''4''"
    by code_simp
  have v5: "sigids (fst (after_cells writer0 mod_tie)) (Const Sz) = None"
    by code_simp
  have po: "wire_out \<in> set (ports mod_and2)" "included writer0 mod_and2 (wire_name wire_out)"
    "WireBit ''out'' 1 \<in> set (SigSpec_of_wire wire_out)"
    "sigmap_of mod_and2 (WireBit ''out'' 1) = Const S0"
    by (simp_all add: mod_and2_def included_def wire_out_def SigSpec_of_wire_def)
  have ce: "cell_t \<in> set (cells mod_tie)" "included writer0 mod_tie (cell_name cell_t)"
    "(''B'', [Const S1]) \<in> set (connections cell_t)"
    "cell_input cell_t (fst (''B'', [Const S1])) \<or> cell_output cell_t (fst (''B'', [Const S1]))"
    "Const S1 \<in> set (snd (''B'', [Const S1]))" "sigmap_of mod_tie (Const S1) = Const S1"
    by (simp_all add: mod_tie_def included_def cell_t_def)
  have wi: "wire_h \<in> set (wires mod_tie)" "included writer0 mod_tie (wire_name wire_h)"
    "0 < width wire_h" "sigmap_of mod_tie (WireBit (wire_name wire_h) 0) = Const Sz"
    by (simp_all add: mod_tie_def included_def wire_h_def)
  note t0 = constant_tokens_fixed [of S0 writer0 writer0 mod_and2 "[CHR 0x22, CHR ''0'', CHR 0x22]"
      "after_wires writer0 mod_and2" "Const S0" ?sig 7 False 1 wire_out]
  from t0 have tok: "const_token S0 = [CHR 0x22, CHR ''0'', CHR 0x22]" by (rule conjunct1)
  from t0 h0 have a: "sigids (assign_sigid writer0 (Const S0)) (Const S0) = Some (const_token S0)"
    by blast
  have mem: "Const S0 \<in> set ?sig" by simp
  from t0 h0 mem sm0 have g: "sigids (fst (get_bits writer0 ?sig)) (Const S0) = Some (const_token S0)"
    by blast
  from t0 h0 mem sm0 have u: "sigids (fst (updateIndexMap writer0 ?sig 7 False)) (Const S0) = Some (const_token S0)"
    by blast
  from t0 h0 mem sm0 have "7 \<in> set ((if False then sourceBitToIdxMap (fst (updateIndexMap writer0 ?sig 7 False))
      else targetBitToIdxMap (fst (updateIndexMap writer0 ?sig 7 False))) (const_token S0))"
    by blast
  then have u7: "7 \<in> set (targetBitToIdxMap (fst (updateIndexMap writer0 ?sig 7 False)) (const_token S0))"
    by (simp only: if_False)
  have "(1::nat) < length ?sig" "sigmap writer0 (?sig ! 1) = Const S0" using sm0 by simp_all
  with t0 h0 have n: "snd (get_bits_vector writer0 ?sig) ! 1 = const_token S0" by blast
  have e0: "sigids (after_wires writer0 mod_and2) (Const S0) = Some (const_token S0)"
    using constant_tokens_fixed [of S0 writer0 writer0 mod_and2 "[CHR 0x22, CHR ''0'', CHR 0x22]"
      "after_wires writer0 mod_and2" "WireBit ''out'' 1" ?sig 7 False 1 wire_out] h1 po
    by blast
  have e1: "sigids (after_wires writer0 mod_tie) (Const S1) = Some (const_token S1)"
    using constant_tokens_fixed [of S1 writer0 writer0 mod_tie "[]"
      "after_wires writer0 mod_tie" "Const S1" ?sig 7 False 1 wire_a cell_t "(''B'', [Const S1])"] h2 ce
    by blast
  have e2: "sigids (after_wires writer0 mod_tie) (Const Sz) = Some (const_token Sz) \<and>
      wire_bit_ids (after_wires writer0 mod_tie) wire_h ! 0 = const_token Sz"
    using constant_tokens_fixed [of Sz writer0 writer0 mod_tie "[]"
      "after_wires writer0 mod_tie" "Const Sz" ?sig 7 False 1 wire_a cell_t "(''B'', [Const S1])" wire_h 0]
      h2 wi by blast
  have tz: "const_token Sz = [CHR 0x22, CHR ''z'', CHR 0x22]"
    using constant_tokens_fixed [of Sz] by blast
  have wh: "sigmap_of mod_tie (WireBit ''h'' 0) = Const Sz" by (simp add: mod_tie_def)
  show ?thesis
    using h0 a v1 v2 h1 e0 v4 sm0 g u u7 n po(1,4) h2 ce(1,3) e1 wi(1) wh v5 e2 tz tok
    by simp
qed

text \<open>
  Claim C8. \<^verbatim>\<open>write_module\<close> starts the counter at 2. A wire bit met for the first
  time is given the decimal string of the counter, which is then increased by one; a bit
  that already has an identifier keeps it and changes nothing. At the end of
  \<^verbatim>\<open>write_module\<close> the identifier of every wire bit is the decimal string of an integer
  that is at least 2, so it is neither \<^verbatim>\<open>0\<close> nor \<^verbatim>\<open>1\<close>, and no decimal string is the
  identifier of two different bits.
\<close>

theorem no_identifier_collision:
  "sigidcounter (module_start w0 m) = 2 \<and>
   (sigids w (WireBit n i) = None \<longrightarrow>
      sigids (assign_sigid w (WireBit n i)) (WireBit n i) = Some (stringf_d (sigidcounter w)) \<and>
      sigidcounter (assign_sigid w (WireBit n i)) = sigidcounter w + 1) \<and>
   (sigids w b = Some s \<longrightarrow> assign_sigid w b = w) \<and>
   (write_module w0 m = Inr w1 \<longrightarrow>
      (\<forall>n i s. sigids w1 (WireBit n i) = Some s \<longrightarrow>
          (\<exists>k\<ge>2. s = stringf_d k) \<and> s \<noteq> ''0'' \<and> s \<noteq> ''1'') \<and>
      (\<forall>b1 b2 k. sigids w1 b1 = Some (stringf_d k) \<and> sigids w1 b2 = Some (stringf_d k) \<longrightarrow> b1 = b2))"
proof (intro conjI allI impI)
  fix n i s
  assume "write_module w0 m = Inr w1" and "sigids w1 (WireBit n i) = Some s"
  then obtain k where k: "2 \<le> k" "s = stringf_d k"
    using write_module_sigids_ok [of w0 m w1] unfolding sigids_ok_def by blast
  then show "\<exists>k\<ge>2. s = stringf_d k" by blast
  from k show "s \<noteq> ''0''" "s \<noteq> ''1''" using stringf_d_ge2 by simp_all
next
  fix b1 b2 k
  assume "write_module w0 m = Inr w1"
    and "sigids w1 b1 = Some (stringf_d k) \<and> sigids w1 b2 = Some (stringf_d k)"
  then show "b1 = b2"
    using write_module_sigids_ok [of w0 m w1] unfolding sigids_ok_def by blast
qed (simp_all add: module_start_def assign_sigid_def)

theorem no_identifier_collision_witness:
  "sigids writer0 (WireBit ''x'' 0) = None \<and>
   sigids (assign_sigid writer0 (WireBit ''x'' 0)) (WireBit ''x'' 0) = Some (stringf_d (sigidcounter writer0)) \<and>
   write_module writer0 mod_and2 = Inr (after_wires writer0 mod_and2) \<and>
   sigids (after_wires writer0 mod_and2) (WireBit ''x'' 0) = Some ''2'' \<and>
   assign_sigid (after_wires writer0 mod_and2) (WireBit ''x'' 0) = after_wires writer0 mod_and2 \<and>
   sigids (after_wires writer0 mod_and2) (WireBit ''y'' 0) = Some (stringf_d 3) \<and>
   sigids (after_wires writer0 mod_and2) (WireBit ''out'' 0) \<noteq> Some (stringf_d 3)"
proof -
  have h0: "sigids writer0 (WireBit ''x'' 0) = None"
    by (simp add: writer0_def GmlWriter_new_def)
  have h1: "write_module writer0 mod_and2 = Inr (after_wires writer0 mod_and2)"
    by (rule write_module_after_wires) (simp add: mod_and2_def)
  have v1: "sigids (after_wires writer0 mod_and2) (WireBit ''x'' 0) = Some ''2''"
    by code_simp
  have v2: "sigids (after_wires writer0 mod_and2) (WireBit ''y'' 0) = Some (stringf_d 3)"
    by code_simp
  note t = no_identifier_collision [of writer0 mod_and2 writer0 "''x''" 0 "WireBit ''x'' 0" "''2''"
      "after_wires writer0 mod_and2"]
  from t h0 have a: "sigids (assign_sigid writer0 (WireBit ''x'' 0)) (WireBit ''x'' 0) =
      Some (stringf_d (sigidcounter writer0))" by blast
  have b: "assign_sigid (after_wires writer0 mod_and2) (WireBit ''x'' 0) = after_wires writer0 mod_and2"
    using no_identifier_collision [of writer0 mod_and2 "after_wires writer0 mod_and2" "''x''" 0
      "WireBit ''x'' 0" "''2''" "after_wires writer0 mod_and2"] v1 by blast
  have c: "sigids (after_wires writer0 mod_and2) (WireBit ''out'' 0) \<noteq> Some (stringf_d 3)"
  proof
    assume "sigids (after_wires writer0 mod_and2) (WireBit ''out'' 0) = Some (stringf_d 3)"
    with t h1 v2 have "WireBit ''out'' 0 = WireBit ''y'' 0" by blast
    then show False by simp
  qed
  show ?thesis using h0 a h1 v1 b v2 c by (intro conjI)
qed

text \<open>
  Claim C9. Every edge record that \<^verbatim>\<open>write_module\<close> writes for a module comes from a
  bit of a selected wire of the module: the source of the edge is in the source vector
  and its target is in the target vector that the writer holds for the identifier of
  that bit.
\<close>

theorem edge_direction:
  assumes "write_module w0 m = Inr w1" and "Edge s t \<in> set (module_lines w0 m)"
  shows "\<exists>wr\<in>set (wires m). included w0 m (wire_name wr) \<and>
           (\<exists>k\<in>set (wire_bit_ids w1 wr).
               s \<in> set (sourceBitToIdxMap w1 k) \<and> t \<in> set (targetBitToIdxMap w1 k))"
proof -
  from write_module_lines [OF assms(1)] obtain ls1 ls2 es where
    l: "module_lines w0 m = ls1 @ ls2 @ map (\<lambda>(s, t). Edge s t) es"
       "edges_of ls1 = []" "edges_of ls2 = []"
    and mem: "\<forall>(s, t)\<in>set es. \<exists>wr\<in>set (wires m). included w0 m (wire_name wr) \<and>
        (\<exists>k\<in>set (wire_bit_ids w1 wr).
            s \<in> set (sourceBitToIdxMap w1 k) \<and> t \<in> set (targetBitToIdxMap w1 k))"
    by blast
  have "(s, t) \<in> set (edges_of (module_lines w0 m))"
    using assms(2) by (rule edges_of_map_Edge_mem)
  then have "(s, t) \<in> set es"
    by (simp add: l edges_of_append edges_of_map_Edge)
  with mem show ?thesis by blast
qed

theorem edge_direction_witness:
  "write_module writer0 mod_and2 = Inr (after_wires writer0 mod_and2) \<and>
   Edge 6 4 \<in> set (module_lines writer0 mod_and2) \<and>
   (\<exists>wr\<in>set (wires mod_and2). included writer0 mod_and2 (wire_name wr) \<and>
      (\<exists>k\<in>set (wire_bit_ids (after_wires writer0 mod_and2) wr).
          6 \<in> set (sourceBitToIdxMap (after_wires writer0 mod_and2) k) \<and>
          4 \<in> set (targetBitToIdxMap (after_wires writer0 mod_and2) k)))"
proof -
  have h1: "write_module writer0 mod_and2 = Inr (after_wires writer0 mod_and2)"
    by (rule write_module_after_wires) (simp add: mod_and2_def)
  have h2: "Edge 6 4 \<in> set (module_lines writer0 mod_and2)"
    by code_simp
  from edge_direction [OF h1 h2] h1 h2 show ?thesis by simp
qed

text \<open>
  Claim C10. \<^verbatim>\<open>prevSource\<close> and \<^verbatim>\<open>prevTarget\<close> are set to 0 at the start of the
  edge emission of every wire. The node ids in the two connectivity maps are at least 2:
  this holds of a new writer, it is kept by the loops over ports and cells and by a whole
  \<^verbatim>\<open>write_module\<close>, and it is kept by the emission for a wire. So the first candidate
  pair of a selected wire differs from the slot and is written, directly after the
  records already in the stream, whatever the last of them is; the rest of the wire
  follows with that pair in the slot.
\<close>

theorem first_pair_of_wire_emitted:
  "map_ids_ge2 (GmlWriter_new out sel aig cim) \<and>
   (map_ids_ge2 w0 \<longrightarrow>
      map_ids_ge2 (fst (after_cells w0 m)) \<and> (\<forall>w1. write_module w0 m = Inr w1 \<longrightarrow> map_ids_ge2 w1)) \<and>
   (map_ids_ge2 w \<longrightarrow> map_ids_ge2 (write_wire m w wr)) \<and>
   (map_ids_ge2 w \<and> included w m (wire_name wr) \<and>
    candidates (sourceBitToIdxMap w) (targetBitToIdxMap w)
      (snd (get_bits_vector w (SigSpec_of_wire wr))) = c # cs \<longrightarrow>
      f (write_wire m w wr) = f w @ map (\<lambda>(s, t). Edge s t) (c # run_edges c cs))"
proof (intro conjI impI allI)
  show "map_ids_ge2 (GmlWriter_new out sel aig cim)" by (rule map_ids_ge2_new)
next
  assume "map_ids_ge2 w0" then show "map_ids_ge2 (fst (after_cells w0 m))" by (rule after_cells_ge2)
next
  fix w1 assume "map_ids_ge2 w0" "write_module w0 m = Inr w1"
  then show "map_ids_ge2 w1" by (rule write_module_ge2)
next
  assume "map_ids_ge2 w" then show "map_ids_ge2 (write_wire m w wr)" by (simp add: write_wire_ge2)
next
  let ?bits = "snd (get_bits_vector w (SigSpec_of_wire wr))"
  let ?cands = "candidates (sourceBitToIdxMap w) (targetBitToIdxMap w) ?bits"
  assume h: "map_ids_ge2 w \<and> included w m (wire_name wr) \<and> ?cands = c # cs"
  then have "(0, 0) \<notin> set ?cands"
    by (intro candidates_ge2) (simp add: map_ids_ge2_def)
  with h have "c \<noteq> (0, 0)" by auto
  then have "wire_edges (sourceBitToIdxMap w) (targetBitToIdxMap w) ?bits = c # run_edges c cs"
    using h by (simp add: wire_edges_run run_edges_Cons)
  with h show "f (write_wire m w wr) = f w @ map (\<lambda>(s, t). Edge s t) (c # run_edges c cs)"
    by (simp add: write_wire_out)
qed

theorem first_pair_of_wire_emitted_witness:
  "map_ids_ge2 (write_wire mod_alias (fst (after_cells writer0 mod_alias)) wire_a) \<and>
   included (write_wire mod_alias (fst (after_cells writer0 mod_alias)) wire_a) mod_alias (wire_name wire_e) \<and>
   candidates
     (sourceBitToIdxMap (write_wire mod_alias (fst (after_cells writer0 mod_alias)) wire_a))
     (targetBitToIdxMap (write_wire mod_alias (fst (after_cells writer0 mod_alias)) wire_a))
     (snd (get_bits_vector (write_wire mod_alias (fst (after_cells writer0 mod_alias)) wire_a)
        (SigSpec_of_wire wire_e))) = [(2, 3)] \<and>
   last (f (write_wire mod_alias (fst (after_cells writer0 mod_alias)) wire_a)) = Edge 2 3 \<and>
   f (write_wire mod_alias (write_wire mod_alias (fst (after_cells writer0 mod_alias)) wire_a) wire_e) =
     f (write_wire mod_alias (fst (after_cells writer0 mod_alias)) wire_a) @ [Edge 2 3] \<and>
   edges_of (module_lines writer0 mod_alias) = [(2, 3), (2, 3)]"
proof -
  let ?w2 = "fst (after_cells writer0 mod_alias)"
  let ?w = "write_wire mod_alias ?w2 wire_a"
  note t = first_pair_of_wire_emitted
  have i0: "map_ids_ge2 writer0"
    unfolding writer0_def using t [of "[]" False False False] by (rule conjunct1)
  have i2: "map_ids_ge2 ?w2"
    using t [of "[]" False False False writer0 mod_alias] i0 by blast
  have i3: "map_ids_ge2 ?w"
    using t [of "[]" False False False writer0 mod_alias ?w2 wire_a] i2 by blast
  have inc: "included ?w mod_alias (wire_name wire_e)"
    by (simp add: included_def mod_alias_def)
  have cands: "candidates (sourceBitToIdxMap ?w) (targetBitToIdxMap ?w)
     (snd (get_bits_vector ?w (SigSpec_of_wire wire_e))) = [(2, 3)]"
    by code_simp
  have l: "last (f ?w) = Edge 2 3" by code_simp
  have r: "run_edges (2, 3) [] = []" by (simp add: run_edges_Nil)
  have e: "f (write_wire mod_alias ?w wire_e) = f ?w @ map (\<lambda>(s, t). Edge s t) ((2, 3) # run_edges (2, 3) [])"
    using t [of "[]" False False False writer0 mod_alias ?w wire_e "(2, 3)" "[]"] i3 inc cands by blast
  have all: "edges_of (module_lines writer0 mod_alias) = [(2, 3), (2, 3)]" by code_simp
  show ?thesis using i3 inc cands l e all by (simp add: r)
qed

end
